theory Spec2Isabelle
  imports Complex_Main "HOL-Library.Multiset"
begin

section \<open>Numbers and text\<close>

text \<open>
  Wealth is a Python \<^verbatim>\<open>float\<close>. The development idealises it as an exact real
  number: rounding, infinities and NaN are outside the model. Text is a list of
  characters, each read as a code point below 256.
\<close>

definition is_digit :: "char \<Rightarrow> bool" where
  \<comment> \<open>the regex class \<^verbatim>\<open>\d\<close> on code points below 256\<close>
  "is_digit c = (c \<in> set ''0123456789'')"

definition is_space :: "char \<Rightarrow> bool" where
  \<comment> \<open>the regex class \<^verbatim>\<open>\s\<close> on code points below 256\<close>
  "is_space c = (c \<in> set [CHR 0x09, CHR 0x0A, CHR 0x0B, CHR 0x0C, CHR 0x0D,
                             CHR 0x1C, CHR 0x1D, CHR 0x1E, CHR 0x1F, CHR 0x20,
                             CHR 0x85, CHR 0xA0])"

definition lower_char :: "char \<Rightarrow> char" where
  "lower_char c =
     (let n = (of_char c :: nat)
      in if (65 \<le> n \<and> n \<le> 90) \<or> (192 \<le> n \<and> n \<le> 222 \<and> n \<noteq> 215)
         then char_of (n + 32) else c)"

definition lower :: "string \<Rightarrow> string" where
  \<comment> \<open>\<^verbatim>\<open>str.lower()\<close>\<close>
  "lower s = map lower_char s"

fun startswith :: "string \<Rightarrow> string \<Rightarrow> bool" where
  "startswith s [] = True"
| "startswith [] (p # ps) = False"
| "startswith (c # cs) (p # ps) = (c = p \<and> startswith cs ps)"

fun contains :: "string \<Rightarrow> string \<Rightarrow> bool" where
  \<comment> \<open>\<^verbatim>\<open>sub in s\<close>\<close>
  "contains sub [] = (sub = [])"
| "contains sub (c # cs) = (startswith (c # cs) sub \<or> contains sub cs)"

definition digit_value :: "char \<Rightarrow> nat" where
  "digit_value c = of_char c - 48"

definition int_of_digits :: "string \<Rightarrow> nat" where
  \<comment> \<open>\<^verbatim>\<open>int(ds)\<close> on a non-empty run of decimal digits\<close>
  "int_of_digits ds = foldl (\<lambda>acc c. 10 * acc + digit_value c) 0 ds"

text \<open>
  \<^verbatim>\<open>re.search(p, s)\<close> tries every start position from the left and returns the
  first match. Each of the three patterns of the source is a fixed sequence of
  literals and greedy character-class runs; a shorter run never helps, because
  the item that follows a run cannot start with a character of the run's class.
  So the match at a position takes every run in full. \<^verbatim>\<open>int\<close> of the matched digits is
  their decimal value; the interpreter's limit on the length of such a digit string is
  not modelled.
\<close>

definition match_rate :: "string \<Rightarrow> string option" where
  \<comment> \<open>\<^verbatim>\<open>(\d+)%\<close> anchored at the start; the result is group 1\<close>
  "match_rate s =
     (let ds = takeWhile is_digit s
      in if ds \<noteq> [] \<and> startswith (dropWhile is_digit s) ''%'' then Some ds else None)"

definition match_threshold :: "string \<Rightarrow> string option" where
  \<comment> \<open>\<^verbatim>\<open>wealth\s*>\s*(\d+)\<close> anchored at the start\<close>
  "match_threshold s =
     (if startswith s ''wealth'' then
        (let r1 = dropWhile is_space (drop 6 s)
         in if startswith r1 ''>'' then
              (let ds = takeWhile is_digit (dropWhile is_space (drop 1 r1))
               in if ds \<noteq> [] then Some ds else None)
            else None)
      else None)"

definition match_minimum :: "string \<Rightarrow> string option" where
  \<comment> \<open>\<^verbatim>\<open>minimum\s*(?:of\s*)?(\d+)\<close> anchored at the start\<close>
  "match_minimum s =
     (if startswith s ''minimum'' then
        (let r1 = dropWhile is_space (drop 7 s);
             r2 = (if startswith r1 ''of'' then dropWhile is_space (drop 2 r1) else r1);
             ds = takeWhile is_digit r2
         in if ds \<noteq> [] then Some ds else None)
      else None)"

fun re_search :: "(string \<Rightarrow> string option) \<Rightarrow> string \<Rightarrow> string option" where
  "re_search m [] = m []"
| "re_search m (c # cs) = (case m (c # cs) of Some g \<Rightarrow> Some g | None \<Rightarrow> re_search m cs)"

section \<open>Agents\<close>

definition STARTING_WEALTH :: real where "STARTING_WEALTH = 100"
definition REPRODUCTION_COST :: real where "REPRODUCTION_COST = 200"
definition CHILD_STARTING_WEALTH :: real where "CHILD_STARTING_WEALTH = 50"
definition PARTICIPATION_COST :: real where "PARTICIPATION_COST = 1"

text \<open>
  The fields of \<^verbatim>\<open>CivilizationAgent\<close>, with \<^verbatim>\<open>id\<close>, \<^verbatim>\<open>system_prompt\<close> and
  \<^verbatim>\<open>generation\<close> inherited from \<^verbatim>\<open>GenesisAgent\<close>. A population is a list of pairwise
  distinct agent objects, so updating one entry of the list leaves the others as
  they are.
\<close>

record CivilizationAgent =
  id_agent :: string
  system_prompt :: string
  generation :: int
  wealth :: real
  age :: int
  parent_id :: "string option"
  children_ids :: "string list"
  dynasty_id :: "string option"

definition can_reproduce :: "CivilizationAgent \<Rightarrow> bool" where
  "can_reproduce a = (wealth a \<ge> REPRODUCTION_COST)"

definition is_alive :: "CivilizationAgent \<Rightarrow> bool" where
  "is_alive a = (wealth a > 0)"

definition pay_reproduction_cost :: "CivilizationAgent \<Rightarrow> CivilizationAgent" where
  "pay_reproduction_cost a = a\<lparr>wealth := wealth a - REPRODUCTION_COST\<rparr>"

definition create_offspring ::
  "CivilizationAgent \<Rightarrow> string \<Rightarrow> string \<Rightarrow> CivilizationAgent \<times> CivilizationAgent" where
  \<comment> \<open>\<open>child_id\<close> is the value drawn from \<^verbatim>\<open>uuid.uuid4()\<close>; the result is the updated
      parent and the child\<close>
  "create_offspring parent child_prompt child_id =
     (let child = \<lparr>id_agent = child_id, system_prompt = child_prompt,
                    generation = generation parent + 1,
                    wealth = CHILD_STARTING_WEALTH, age = 0,
                    parent_id = Some (id_agent parent), children_ids = [],
                    dynasty_id = dynasty_id parent\<rparr>
      in (parent\<lparr>children_ids := children_ids parent @ [child_id]\<rparr>, child))"

section \<open>Rules\<close>

datatype RuleCategory =
  TAXATION | MERITOCRACY | WELFARE | OLIGARCHY | REPRODUCTION | COMPETITION | OTHER

datatype VotingSystem = EQUAL | WEALTH_WEIGHTED | STAKE_WEIGHTED

record Rule =
  id_rule :: string
  proposer_id :: string
  description :: string
  effect :: string
  category :: RuleCategory
  generation_proposed :: int
  votes_for :: int
  votes_against :: int
  passed :: bool
  generation_enacted :: "int option"

subsection \<open>Taxation\<close>

definition tax_rate_of :: "string \<Rightarrow> real" where
  "tax_rate_of eff =
     (case re_search match_rate eff of
        Some ds \<Rightarrow> real (int_of_digits ds) / 100
      | None \<Rightarrow> 1 / 10)"

definition wealth_threshold_of :: "string \<Rightarrow> real" where
  "wealth_threshold_of eff =
     (case re_search match_threshold eff of
        Some ds \<Rightarrow> real (int_of_digits ds)
      | None \<Rightarrow> 0)"

definition tax_step ::
  "real \<Rightarrow> real \<Rightarrow> CivilizationAgent list \<times> real \<Rightarrow> CivilizationAgent
     \<Rightarrow> CivilizationAgent list \<times> real" where
  \<comment> \<open>one pass of the collecting loop: the agents already visited and \<open>total_tax\<close>\<close>
  "tax_step tax_rate wealth_threshold st agent =
     (case st of (visited, total_tax) \<Rightarrow>
        if wealth agent > wealth_threshold then
          (let tax = wealth agent * tax_rate
           in (visited @ [agent\<lparr>wealth := wealth agent - tax\<rparr>], total_tax + tax))
        else (visited @ [agent], total_tax))"

definition apply_taxation :: "Rule \<Rightarrow> CivilizationAgent list \<Rightarrow> CivilizationAgent list" where
  "apply_taxation rule agents =
     (let eff = lower (effect rule);
          tax_rate = tax_rate_of eff;
          wealth_threshold = wealth_threshold_of eff;
          (taxed, total_tax) = foldl (tax_step tax_rate wealth_threshold) ([], 0) agents
      in if total_tax > 0 then
           (let share = total_tax / real (length agents)
            in map (\<lambda>agent. agent\<lparr>wealth := wealth agent + share\<rparr>) taxed)
         else taxed)"

subsection \<open>Welfare\<close>

definition min_wealth_of :: "string \<Rightarrow> real" where
  "min_wealth_of eff =
     (case re_search match_minimum eff of
        Some ds \<Rightarrow> real (int_of_digits ds)
      | None \<Rightarrow> 20)"

definition welfare_needed :: "real \<Rightarrow> CivilizationAgent list \<Rightarrow> real" where
  \<comment> \<open>\<^verbatim>\<open>sum(max(0, min_wealth - a.wealth) for a in agents)\<close>\<close>
  "welfare_needed min_wealth agents =
     sum_list (map (\<lambda>a. max 0 (min_wealth - wealth a)) agents)"

definition apply_welfare :: "Rule \<Rightarrow> CivilizationAgent list \<Rightarrow> CivilizationAgent list" where
  "apply_welfare rule agents =
     (let eff = lower (effect rule);
          min_wealth = min_wealth_of eff;
          total_needed = welfare_needed min_wealth agents
      in if total_needed > 0 then
           (let wealthy = filter (\<lambda>a. wealth a > min_wealth * 2) agents;
                agents1 =
                  (if wealthy \<noteq> [] then
                     (let contribution_per = total_needed / real (length wealthy)
                      in map (\<lambda>agent. if wealth agent > min_wealth * 2
                                       then agent\<lparr>wealth := wealth agent
                                              - min contribution_per (wealth agent * (1 / 10))\<rparr>
                                       else agent) agents)
                   else agents)
            in map (\<lambda>agent. if wealth agent < min_wealth
                             then agent\<lparr>wealth := min_wealth\<rparr> else agent) agents1)
         else agents)"

subsection \<open>Enactment\<close>

definition apply_rule ::
  "Rule \<Rightarrow> CivilizationAgent list \<Rightarrow> int \<Rightarrow> Rule \<times> CivilizationAgent list" where
  \<comment> \<open>the rule object is updated in place; it is returned beside the population\<close>
  "apply_rule rule agents gen =
     (if \<not> passed rule then (rule, agents)
      else
        (let rule1 = rule\<lparr>generation_enacted := Some gen\<rparr>;
             effect_lower = lower (effect rule1);
             agents1 = (if contains ''tax'' effect_lower \<or> contains ''pay'' effect_lower
                        then apply_taxation rule1 agents else agents);
             agents2 = (if contains ''minimum'' effect_lower \<or> contains ''welfare'' effect_lower
                        then apply_welfare rule1 agents1 else agents1);
             agents3 = (if contains ''double'' effect_lower \<and> contains ''vote'' effect_lower
                        then agents2 else agents2);
             agents4 = (if contains ''reproduce'' effect_lower \<or> contains ''offspring'' effect_lower
                        then agents3 else agents3)
         in (rule1, agents4)))"

subsection \<open>Voting\<close>

text \<open>
  What the language-model service raises is an \<open>oracle_error\<close>; the exceptions of the
  engine itself are the other constructors of \<open>exn\<close>.
\<close>

type_synonym oracle_error = string

datatype exn =
  ZeroDivisionError
| KeyError string
| NameError string
| IneligibleParent   \<comment> \<open>the \<^verbatim>\<open>ValueError\<close> of \<^verbatim>\<open>reproduce\<close>\<close>
| OracleFailure oracle_error

fun dict_set :: "('k \<times> 'v) list \<Rightarrow> 'k \<Rightarrow> 'v \<Rightarrow> ('k \<times> 'v) list" where
  \<comment> \<open>\<^verbatim>\<open>d[k] = v\<close> on a dictionary kept in insertion order\<close>
  "dict_set [] k v = [(k, v)]"
| "dict_set ((k', v') # d) k v =
     (if k' = k then (k, v) # d else (k', v') # dict_set d k v)"

definition dict_get :: "(string \<times> 'v) list \<Rightarrow> string \<Rightarrow> exn + 'v" where
  "dict_get d k = (case map_of d k of None \<Rightarrow> Inl (KeyError k) | Some v \<Rightarrow> Inr v)"

definition py_int :: "real \<Rightarrow> int" where
  \<comment> \<open>\<^verbatim>\<open>int(x)\<close> truncates towards zero\<close>
  "py_int x = (if x \<ge> 0 then \<lfloor>x\<rfloor> else \<lceil>x\<rceil>)"

definition py_truediv :: "real \<Rightarrow> real \<Rightarrow> exn + real" where
  "py_truediv a b = (if b = 0 then Inl ZeroDivisionError else Inr (a / b))"

definition vote_on_rule ::
  "CivilizationAgent \<Rightarrow> Rule \<Rightarrow> (CivilizationAgent \<Rightarrow> Rule \<Rightarrow> oracle_error + bool)
     \<Rightarrow> oracle_error + bool" where
  \<comment> \<open>the service's answer, already reduced to whether it contains \<^verbatim>\<open>YES\<close>\<close>
  "vote_on_rule agent rule llm_client = llm_client agent rule"

fun collect_votes ::
  "(CivilizationAgent \<Rightarrow> Rule \<Rightarrow> oracle_error + bool) \<Rightarrow> Rule \<Rightarrow> CivilizationAgent list
     \<Rightarrow> (string \<times> bool) list \<Rightarrow> exn + (string \<times> bool) list" where
  "collect_votes llm_client rule [] votes = Inr votes"
| "collect_votes llm_client rule (agent # rest) votes =
     (case vote_on_rule agent rule llm_client of
        Inl e \<Rightarrow> Inl (OracleFailure e)
      | Inr vote \<Rightarrow> collect_votes llm_client rule rest (dict_set votes (id_agent agent) vote))"

fun sum_yes :: "(string \<times> real) list \<Rightarrow> (string \<times> bool) list \<Rightarrow> exn + real" where
  \<comment> \<open>\<^verbatim>\<open>sum(wealth_map[aid] for aid, v in votes.items() if v)\<close>\<close>
  "sum_yes wealth_map [] = Inr 0"
| "sum_yes wealth_map ((aid, v) # rest) =
     (if v then
        (case dict_get wealth_map aid of
           Inl e \<Rightarrow> Inl e
         | Inr w \<Rightarrow> (case sum_yes wealth_map rest of Inl e \<Rightarrow> Inl e | Inr s \<Rightarrow> Inr (w + s)))
      else sum_yes wealth_map rest)"

definition weighted_tally ::
  "(string \<times> real) list \<Rightarrow> (string \<times> bool) list \<Rightarrow> Rule \<Rightarrow> real \<Rightarrow> exn + bool \<times> Rule" where
  "weighted_tally wealth_map votes rule threshold =
     (case sum_yes wealth_map votes of
        Inl e \<Rightarrow> Inl e
      | Inr yes_weight \<Rightarrow>
          (let total_weight = sum_list (map snd wealth_map)
           in case py_truediv yes_weight total_weight of
                Inl e \<Rightarrow> Inl e
              | Inr ratio \<Rightarrow>
                  (let p = (ratio \<ge> threshold)
                   in Inr (p, rule\<lparr>votes_for := py_int yes_weight,
                                   votes_against := py_int (total_weight - yes_weight),
                                   passed := p\<rparr>))))"

definition run_voting ::
  "CivilizationAgent list \<Rightarrow> Rule \<Rightarrow> (CivilizationAgent \<Rightarrow> Rule \<Rightarrow> oracle_error + bool)
     \<Rightarrow> VotingSystem \<Rightarrow> real \<Rightarrow> exn + bool \<times> Rule" where
  "run_voting agents rule llm_client voting_system threshold =
     (case collect_votes llm_client rule agents [] of
        Inl e \<Rightarrow> Inl e
      | Inr votes \<Rightarrow>
          (case voting_system of
             EQUAL \<Rightarrow>
               (let yes_votes = length (filter snd votes);
                    total_votes = length votes
                in case py_truediv (real yes_votes) (real total_votes) of
                     Inl e \<Rightarrow> Inl e
                   | Inr ratio \<Rightarrow>
                       (let p = (ratio \<ge> threshold)
                        in Inr (p, rule\<lparr>votes_for := int yes_votes,
                                        votes_against := int total_votes - int yes_votes,
                                        passed := p\<rparr>)))
           | WEALTH_WEIGHTED \<Rightarrow>
               weighted_tally
                 (foldl (\<lambda>d a. dict_set d (id_agent a) (wealth a)) [] agents)
                 votes rule threshold
           | STAKE_WEIGHTED \<Rightarrow>
               weighted_tally
                 (foldl (\<lambda>d a. dict_set d (id_agent a) ((wealth a)\<^sup>2)) [] agents)
                 votes rule threshold))"

section \<open>Mortality\<close>

text \<open>
  The record of a death. The time stamp of the source is the wall clock and is left
  out. The ledger is the module-level list \<^verbatim>\<open>_extinction_log\<close>, passed in and
  returned.
\<close>

record ExtinctionRecord =
  agent_id :: string
  dynasty_id_rec :: string
  generation_rec :: int
  age_at_death :: int
  final_wealth :: real
  cause :: string
  specialization :: string

definition or_default :: "string option \<Rightarrow> string \<Rightarrow> string" where
  \<comment> \<open>\<^verbatim>\<open>x or d\<close> for an optional string: \<^verbatim>\<open>None\<close> and the empty string are falsy\<close>
  "or_default x d = (case x of None \<Rightarrow> d | Some s \<Rightarrow> if s = [] then d else s)"

definition log_extinction ::
  "(CivilizationAgent \<Rightarrow> string option) \<Rightarrow> ExtinctionRecord list \<Rightarrow> CivilizationAgent
     \<Rightarrow> int \<Rightarrow> string \<Rightarrow> ExtinctionRecord list \<times> ExtinctionRecord" where
  \<comment> \<open>\<open>get_best_task_type\<close> is the method of \<^verbatim>\<open>GenesisAgent\<close>, taken as a parameter\<close>
  "log_extinction get_best_task_type ledger agent gen cause_arg =
     (let rec = \<lparr>agent_id = id_agent agent,
                  dynasty_id_rec = or_default (dynasty_id agent) ''unknown'',
                  generation_rec = gen,
                  age_at_death = age agent,
                  final_wealth = wealth agent,
                  cause = cause_arg,
                  specialization = or_default (get_best_task_type agent) ''generalist''\<rparr>
      in (ledger @ [rec], rec))"

definition death_step ::
  "(CivilizationAgent \<Rightarrow> string option) \<Rightarrow> int
     \<Rightarrow> CivilizationAgent list \<times> CivilizationAgent list \<times> ExtinctionRecord list
     \<Rightarrow> CivilizationAgent
     \<Rightarrow> CivilizationAgent list \<times> CivilizationAgent list \<times> ExtinctionRecord list" where
  "death_step get_best_task_type gen st agent =
     (case st of (survivors, deceased, ledger) \<Rightarrow>
        if is_alive agent then (survivors @ [agent], deceased, ledger)
        else (survivors, deceased @ [agent],
              fst (log_extinction get_best_task_type ledger agent gen ''bankruptcy'')))"

definition process_deaths ::
  "(CivilizationAgent \<Rightarrow> string option) \<Rightarrow> ExtinctionRecord list
     \<Rightarrow> CivilizationAgent list \<Rightarrow> int
     \<Rightarrow> CivilizationAgent list \<times> CivilizationAgent list \<times> ExtinctionRecord list" where
  \<comment> \<open>survivors, deceased and the ledger afterwards\<close>
  "process_deaths get_best_task_type ledger agents gen =
     foldl (death_step get_best_task_type gen) ([], [], ledger) agents"

subsection \<open>Loading the module\<close>

text \<open>
  The functions above exist only once the module \<^verbatim>\<open>death.py\<close> has been executed. Its
  top-level statements run in the order of the file. An import binds names. A class or
  function definition, or an annotated assignment, first evaluates the names of its
  decorators, annotations, default values and (for a class) its body, and then binds its
  own name; a name that is not bound at that moment raises \<^verbatim>\<open>NameError\<close>. Function bodies
  are not evaluated when the function is defined.
\<close>

datatype stmt =
  Import "string list"                  \<comment> \<open>the names bound\<close>
| Define "string list" "string list"    \<comment> \<open>the names evaluated, then the names bound\<close>

fun exec_module :: "string list \<Rightarrow> stmt list \<Rightarrow> exn + string list" where
  "exec_module bound [] = Inr bound"
| "exec_module bound (Import names # rest) = exec_module (bound @ names) rest"
| "exec_module bound (Define uses binds # rest) =
     (case find (\<lambda>n. n \<notin> set bound) uses of
        Some n \<Rightarrow> Inl (NameError n)
      | None \<Rightarrow> exec_module (bound @ binds) rest)"

definition python_builtins :: "string list" where
  \<comment> \<open>the built-in names the module refers to\<close>
  "python_builtins = [''str'', ''int'', ''float'']"

definition death_py :: "stmt list" where
  \<comment> \<open>the top-level statements of \<^verbatim>\<open>death.py\<close>, lines 7 to 141\<close>
  "death_py =
     [Import [''List'', ''Tuple'', ''Dict''],
      Import [''datetime''],
      Import [''json''],
      Import [''Path''],
      Import [''CivilizationAgent''],
      Define [''dataclass'', ''str'', ''int'', ''float'', ''datetime'', ''field'']
             [''ExtinctionRecord''],
      Define [''List'', ''ExtinctionRecord''] [''_extinction_log''],
      Define [''List'', ''CivilizationAgent'', ''int'', ''Tuple''] [''process_deaths''],
      Define [''CivilizationAgent'', ''int'', ''str'', ''ExtinctionRecord''] [''log_extinction''],
      Define [''List'', ''ExtinctionRecord''] [''get_extinction_log''],
      Define [] [''clear_extinction_log''],
      Define [''List'', ''ExtinctionRecord'', ''Dict''] [''get_extinction_statistics''],
      Define [''str''] [''save_extinction_log''],
      Import [''dataclass'', ''field'']]"

definition import_and_process_deaths ::
  "(CivilizationAgent \<Rightarrow> string option) \<Rightarrow> ExtinctionRecord list
     \<Rightarrow> CivilizationAgent list \<Rightarrow> int
     \<Rightarrow> exn + CivilizationAgent list \<times> CivilizationAgent list \<times> ExtinctionRecord list" where
  \<comment> \<open>\<^verbatim>\<open>from genesis.death import process_deaths\<close>, then the call\<close>
  "import_and_process_deaths get_best_task_type ledger agents gen =
     (case exec_module python_builtins death_py of
        Inl e \<Rightarrow> Inl e
      | Inr names \<Rightarrow>
          if ''process_deaths'' \<in> set names
          then Inr (process_deaths get_best_task_type ledger agents gen)
          else Inl (NameError ''process_deaths''))"

section \<open>Reproduction\<close>

definition strip :: "string \<Rightarrow> string" where
  \<comment> \<open>\<^verbatim>\<open>str.strip()\<close>\<close>
  "strip s = rev (dropWhile is_space (rev (dropWhile is_space s)))"

definition generate_offspring_prompt ::
  "CivilizationAgent \<Rightarrow> (CivilizationAgent \<Rightarrow> real \<Rightarrow> oracle_error + string) \<Rightarrow> real
     \<Rightarrow> oracle_error + string" where
  \<comment> \<open>\<open>llm_client parent mutation_rate\<close> is the service's completion for the prompt built
      from the parent and the mutation rate, or what the call raises\<close>
  "generate_offspring_prompt parent llm_client mutation_rate =
     (case llm_client parent mutation_rate of
        Inl e \<Rightarrow> Inl e
      | Inr content \<Rightarrow> Inr (strip content))"

definition reproduce ::
  "CivilizationAgent \<Rightarrow> (CivilizationAgent \<Rightarrow> real \<Rightarrow> oracle_error + string) \<Rightarrow> real
     \<Rightarrow> string \<Rightarrow> CivilizationAgent \<times> (exn + CivilizationAgent)" where
  \<comment> \<open>the parent object afterwards, and the child or the exception raised\<close>
  "reproduce parent llm_client mutation_rate child_id =
     (if \<not> can_reproduce parent then (parent, Inl IneligibleParent)
      else
        (case generate_offspring_prompt parent llm_client mutation_rate of
           Inl e \<Rightarrow> (parent, Inl (OracleFailure e))
         | Inr child_prompt \<Rightarrow>
             (let parent1 = pay_reproduction_cost parent;
                  (parent2, child) = create_offspring parent1 child_prompt child_id
              in (parent2, Inr child))))"

definition get_reproducible_agents :: "CivilizationAgent list \<Rightarrow> nat list" where
  \<comment> \<open>the agents are named by their positions in the population\<close>
  "get_reproducible_agents agents =
     filter (\<lambda>i. can_reproduce (agents ! i)) [0..<length agents]"

definition py_slice_to :: "'a list \<Rightarrow> int \<Rightarrow> 'a list" where
  \<comment> \<open>\<^verbatim>\<open>xs[:n]\<close>; a negative \<open>n\<close> counts from the end\<close>
  "py_slice_to xs n =
     (if n \<ge> 0 then take (nat n) xs else take (length xs - nat (- n)) xs)"

record phase_state =
  population :: "CivilizationAgent list"
  offspring :: "CivilizationAgent list"
  printed :: "(string \<times> exn) list"
  calls :: nat

definition phase_step ::
  "(nat \<Rightarrow> CivilizationAgent \<Rightarrow> real \<Rightarrow> oracle_error + string) \<Rightarrow> (nat \<Rightarrow> string) \<Rightarrow> real
     \<Rightarrow> phase_state \<Rightarrow> nat \<Rightarrow> phase_state" where
  \<comment> \<open>one pass of the loop of \<^verbatim>\<open>reproduction_phase\<close>: \<open>llm_client k\<close> is the service at
      its \<open>k\<close>-th call, \<open>uuid4 k\<close> the \<open>k\<close>-th identifier drawn\<close>
  "phase_step llm_client uuid4 mutation_rate st i =
     (let parent = population st ! i
      in case reproduce parent (llm_client (calls st)) mutation_rate
                (uuid4 (length (offspring st))) of
           (parent', Inr child) \<Rightarrow>
             st\<lparr>population := (population st)[i := parent'],
                offspring := offspring st @ [child],
                calls := calls st + 1\<rparr>
         | (parent', Inl e) \<Rightarrow>
             st\<lparr>population := (population st)[i := parent'],
                printed := printed st @ [(id_agent parent, e)],
                calls := calls st + 1\<rparr>)"

definition reproduction_phase ::
  "CivilizationAgent list \<Rightarrow> (nat \<Rightarrow> CivilizationAgent \<Rightarrow> real \<Rightarrow> oracle_error + string)
     \<Rightarrow> (nat \<Rightarrow> string) \<Rightarrow> int option \<Rightarrow> real \<Rightarrow> phase_state" where
  "reproduction_phase agents llm_client uuid4 max_offspring_per_gen mutation_rate =
     (let reproducible = get_reproducible_agents agents;
          reproducible1 =
            (case max_offspring_per_gen of
               None \<Rightarrow> reproducible
             | Some m \<Rightarrow>
                 if m \<noteq> 0 then
                   py_slice_to (sort_key (\<lambda>i. - wealth (agents ! i)) reproducible) m
                 else reproducible)
      in foldl (phase_step llm_client uuid4 mutation_rate)
           \<lparr>population = agents, offspring = [], printed = [], calls = 0\<rparr> reproducible1)"

section \<open>Society metrics\<close>

definition RuleCategory_members :: "RuleCategory list" where
  "RuleCategory_members =
     [TAXATION, MERITOCRACY, WELFARE, OLIGARCHY, REPRODUCTION, COMPETITION, OTHER]"

fun counter_add :: "('k \<times> nat) list \<Rightarrow> 'k \<Rightarrow> ('k \<times> nat) list" where
  "counter_add [] k = [(k, 1)]"
| "counter_add ((k', n) # d) k =
     (if k' = k then (k', n + 1) # d else (k', n) # counter_add d k)"

definition Counter :: "'k list \<Rightarrow> ('k \<times> nat) list" where
  \<comment> \<open>\<^verbatim>\<open>collections.Counter(xs)\<close>, in the order of first occurrence\<close>
  "Counter xs = foldl counter_add [] xs"

definition compute_governance_entropy :: "Rule list \<Rightarrow> real" where
  "compute_governance_entropy rules =
     (let passed_rules = filter passed rules
      in if passed_rules = [] then 0
         else
           (let categories = map category passed_rules;
                counts = Counter categories;
                total = sum_list (map snd counts);
                probs = map (\<lambda>c. real c / real total) (map snd counts);
                entropy = - sum_list (map (\<lambda>p. p * ln (p + 1 / 10 ^ 10)) probs);
                max_entropy = ln (real (length RuleCategory_members))
            in entropy / max_entropy))"

section \<open>Sample inputs\<close>

definition sample_agent :: "real \<Rightarrow> CivilizationAgent" where
  "sample_agent w =
     \<lparr>id_agent = ''a1b2c3d4'', system_prompt = ''I am a general-purpose AI assistant.'',
      generation = 0, wealth = w, age = 0, parent_id = None, children_ids = [],
      dynasty_id = Some ''a1b2c3d4''\<rparr>"

definition sample_rule :: "string \<Rightarrow> RuleCategory \<Rightarrow> bool \<Rightarrow> Rule" where
  "sample_rule eff cat p =
     \<lparr>id_rule = ''0f0f0f0f'', proposer_id = ''a1b2c3d4'', description = ''A rule'',
      effect = eff, category = cat, generation_proposed = 0,
      votes_for = 0, votes_against = 0, passed = p, generation_enacted = None\<rparr>"

definition one_rule_per_category :: "Rule list" where
  "one_rule_per_category =
     map (\<lambda>c. sample_rule ''An effect'' c True) RuleCategory_members"

definition welfare_contributed ::
  "real \<Rightarrow> CivilizationAgent list \<Rightarrow> CivilizationAgent list \<Rightarrow> real" where
  \<comment> \<open>what the agents above twice the floor have lost between two states of a population\<close>
  "welfare_contributed min_wealth agents agents' =
     sum_list (map2 (\<lambda>a b. if wealth a > min_wealth * 2 then wealth a - wealth b else 0)
                 agents agents')"

section \<open>Text and pattern lemmas\<close>

lemma startswith_decomp: "startswith s p \<Longrightarrow> s = p @ drop (length p) s"
  by (induction s p rule: startswith.induct) auto

lemma re_search_Some:
  "re_search m s = Some g \<Longrightarrow> \<exists>pre suf. s = pre @ suf \<and> m suf = Some g"
proof (induction s)
  case Nil
  then show ?case by simp
next
  case (Cons c cs)
  show ?case
  proof (cases "m (c # cs)")
    case (Some h)
    with Cons.prems have "m (c # cs) = Some g" by simp
    then have "c # cs = [] @ (c # cs) \<and> m (c # cs) = Some g" by simp
    then show ?thesis by blast
  next
    case None
    with Cons.prems have "re_search m cs = Some g" by simp
    then obtain pre suf where "cs = pre @ suf" "m suf = Some g"
      using Cons.IH by blast
    then have "c # cs = (c # pre) @ suf \<and> m suf = Some g" by simp
    then show ?thesis by blast
  qed
qed

lemma takeWhile_last: "takeWhile P s \<noteq> [] \<Longrightarrow> P (last (takeWhile P s))"
  by (metis last_in_set set_takeWhileD)

lemma takeWhile_hd: "takeWhile P s \<noteq> [] \<Longrightarrow> \<exists>d rest. s = d # rest \<and> P d"
  by (cases s) (auto split: if_splits)

lemma list_all_takeWhile: "list_all P (takeWhile P s)"
  by (induction s) auto

lemma match_rate_Some:
  assumes "match_rate s = Some ds"
  shows "\<exists>pre d rest. s = pre @ d # CHR ''%'' # rest \<and> is_digit d"
proof -
  let ?ds = "takeWhile is_digit s" and ?r = "dropWhile is_digit s"
  from assms have ne: "?ds \<noteq> []" and sw: "startswith ?r ''%''"
    by (auto simp: match_rate_def Let_def split: if_splits)
  from sw have r: "?r = CHR ''%'' # drop 1 ?r"
    using startswith_decomp [of ?r "''%''"] by simp
  have "s = ?ds @ ?r" by simp
  also have "\<dots> = butlast ?ds @ last ?ds # CHR ''%'' # drop 1 ?r"
    using ne r by (metis append_butlast_last_id append.assoc append_Cons append_Nil)
  finally have "s = butlast ?ds @ last ?ds # CHR ''%'' # drop 1 ?r" .
  moreover have "is_digit (last ?ds)" using ne by (rule takeWhile_last)
  ultimately show ?thesis by blast
qed

lemma match_threshold_Some:
  assumes "match_threshold s = Some ds"
  shows "\<exists>ws1 ws2 d rest. s = ''wealth'' @ ws1 @ ''>'' @ ws2 @ d # rest
           \<and> list_all is_space ws1 \<and> list_all is_space ws2 \<and> is_digit d"
proof -
  define t1 where "t1 = drop 6 s"
  define r1 where "r1 = dropWhile is_space t1"
  define t2 where "t2 = drop 1 r1"
  define r2 where "r2 = dropWhile is_space t2"
  from assms have sw: "startswith s ''wealth''" and gt: "startswith r1 ''>''"
    and ne: "takeWhile is_digit r2 \<noteq> []"
    by (auto simp: match_threshold_def Let_def t1_def r1_def t2_def r2_def split: if_splits)
  from sw have s: "s = ''wealth'' @ t1"
    using startswith_decomp [of s "''wealth''"] by (simp add: t1_def eval_nat_numeral)
  have t1: "t1 = takeWhile is_space t1 @ r1" by (simp add: r1_def)
  from gt have r1: "r1 = ''>'' @ t2"
    using startswith_decomp [of r1 "''>''"] by (simp add: t2_def)
  have t2: "t2 = takeWhile is_space t2 @ r2" by (simp add: r2_def)
  from ne obtain d rest where r2: "r2 = d # rest" and d: "is_digit d"
    using takeWhile_hd by blast
  have "s = ''wealth'' @ takeWhile is_space t1 @ ''>'' @ takeWhile is_space t2 @ d # rest"
    using s t1 r1 t2 r2 by (metis append.assoc)
  then show ?thesis
    using d list_all_takeWhile by blast
qed

lemma no_rate_default:
  assumes "\<not> (\<exists>pre d rest. e = pre @ d # CHR ''%'' # rest \<and> is_digit d)"
  shows "tax_rate_of e = 1 / 10"
proof -
  have "re_search match_rate e = None"
  proof (rule ccontr)
    assume "re_search match_rate e \<noteq> None"
    then obtain ds where "re_search match_rate e = Some ds" by auto
    then obtain pre suf where e: "e = pre @ suf" and "match_rate suf = Some ds"
      using re_search_Some by blast
    then obtain pre' d rest where "suf = pre' @ d # CHR ''%'' # rest" "is_digit d"
      using match_rate_Some by blast
    with e have "e = (pre @ pre') @ d # CHR ''%'' # rest \<and> is_digit d" by simp
    with assms show False by blast
  qed
  then show ?thesis by (simp add: tax_rate_of_def)
qed

lemma no_threshold_default:
  assumes "\<not> (\<exists>pre ws1 ws2 d rest. e = pre @ ''wealth'' @ ws1 @ ''>'' @ ws2 @ d # rest
                \<and> list_all is_space ws1 \<and> list_all is_space ws2 \<and> is_digit d)"
  shows "wealth_threshold_of e = 0"
proof -
  have "re_search match_threshold e = None"
  proof (rule ccontr)
    assume "re_search match_threshold e \<noteq> None"
    then obtain ds where "re_search match_threshold e = Some ds" by auto
    then obtain pre suf where e: "e = pre @ suf" and "match_threshold suf = Some ds"
      using re_search_Some by blast
    then obtain ws1 ws2 d rest where
      "suf = ''wealth'' @ ws1 @ ''>'' @ ws2 @ d # rest"
      "list_all is_space ws1" "list_all is_space ws2" "is_digit d"
      using match_threshold_Some by blast
    with e have "e = pre @ ''wealth'' @ ws1 @ ''>'' @ ws2 @ d # rest
                   \<and> list_all is_space ws1 \<and> list_all is_space ws2 \<and> is_digit d" by simp
    with assms show False by blast
  qed
  then show ?thesis by (simp add: wealth_threshold_of_def)
qed

lemma no_percent_char:
  "CHR ''%'' \<notin> set e \<Longrightarrow> \<not> (\<exists>pre d rest. e = pre @ d # CHR ''%'' # rest \<and> is_digit d)"
  by auto

lemma no_gt_char:
  "CHR ''>'' \<notin> set e \<Longrightarrow>
   \<not> (\<exists>pre ws1 ws2 d rest. e = pre @ ''wealth'' @ ws1 @ ''>'' @ ws2 @ d # rest
         \<and> list_all is_space ws1 \<and> list_all is_space ws2 \<and> is_digit d)"
  by auto

section \<open>Properties of the taxation transform\<close>

lemma tax_loop:
  "foldl (tax_step r t) (vis, tot) agents =
     (vis @ map (\<lambda>a. if wealth a > t then a\<lparr>wealth := wealth a - wealth a * r\<rparr> else a) agents,
      tot + sum_list (map (\<lambda>a. if wealth a > t then wealth a * r else 0) agents))"
proof (induction agents arbitrary: vis tot)
  case Nil
  show ?case by simp
next
  case (Cons a agents)
  have "tax_step r t (vis, tot) a =
          (vis @ [if wealth a > t then a\<lparr>wealth := wealth a - wealth a * r\<rparr> else a],
           tot + (if wealth a > t then wealth a * r else 0))"
    by (simp add: tax_step_def Let_def)
  then show ?case
    by (simp add: Cons.IH)
qed

lemma tax_rate_of_nonneg: "0 \<le> tax_rate_of e"
  by (simp add: tax_rate_of_def split: option.split)

lemma wealth_threshold_of_nonneg: "0 \<le> wealth_threshold_of e"
  by (simp add: wealth_threshold_of_def split: option.split)

lemma tax_total_nonneg:
  "0 \<le> r \<Longrightarrow> 0 \<le> t \<Longrightarrow>
   0 \<le> sum_list (map (\<lambda>a. if wealth a > t then wealth a * r else 0) agents)"
  by (rule sum_list_nonneg) auto

lemma sum_wealth_taxed:
  "sum_list (map wealth (map (\<lambda>a. if wealth a > t then a\<lparr>wealth := wealth a - wealth a * r\<rparr> else a) agents))
   = sum_list (map wealth agents) - sum_list (map (\<lambda>a. if wealth a > t then wealth a * r else 0) agents)"
  by (induction agents) auto

lemma sum_wealth_share:
  "sum_list (map wealth (map (\<lambda>a. a\<lparr>wealth := wealth a + s\<rparr>) xs))
   = sum_list (map wealth xs) + real (length xs) * s"
  by (induction xs) (auto simp: algebra_simps)

text \<open>
  Claim C10. The taxation transform conserves total wealth: for every population and
  every rule, the wealths after the transform sum to what they summed to before it.
  Whatever was collected is handed back in full.
\<close>

theorem taxation_conserves_total_wealth:
  "sum_list (map wealth (apply_taxation rule agents)) = sum_list (map wealth agents)"
proof -
  define r where "r = tax_rate_of (lower (effect rule))"
  define t where "t = wealth_threshold_of (lower (effect rule))"
  define taxed where
    "taxed = map (\<lambda>a. if wealth a > t then a\<lparr>wealth := wealth a - wealth a * r\<rparr> else a) agents"
  define total where
    "total = sum_list (map (\<lambda>a. if wealth a > t then wealth a * r else 0) agents)"
  have loop: "foldl (tax_step r t) ([], 0) agents = (taxed, total)"
    by (simp add: tax_loop taxed_def total_def)
  have taxed_sum: "sum_list (map wealth taxed) = sum_list (map wealth agents) - total"
    unfolding taxed_def total_def by (rule sum_wealth_taxed)
  have len: "length taxed = length agents"
    by (simp add: taxed_def)
  show ?thesis
  proof (cases "total > 0")
    case True
    then have "agents \<noteq> []"
      by (auto simp: total_def)
    then have n: "real (length agents) \<noteq> 0"
      by simp
    have "apply_taxation rule agents =
            map (\<lambda>a. a\<lparr>wealth := wealth a + total / real (length agents)\<rparr>) taxed"
      using True loop by (simp add: apply_taxation_def Let_def r_def t_def)
    then have "sum_list (map wealth (apply_taxation rule agents))
                 = sum_list (map wealth taxed) + real (length taxed) * (total / real (length agents))"
      by (simp only: sum_wealth_share)
    also have "\<dots> = sum_list (map wealth agents)"
      using n by (simp add: taxed_sum len)
    finally show ?thesis .
  next
    case False
    then have "apply_taxation rule agents = taxed"
      using loop by (simp add: apply_taxation_def Let_def r_def t_def)
    moreover have "total = 0"
      using False tax_total_nonneg [of r t agents]
      by (simp add: total_def r_def t_def tax_rate_of_nonneg wealth_threshold_of_nonneg)
    ultimately show ?thesis
      by (simp add: taxed_sum)
  qed
qed

lemma apply_taxation_closed_form:
  assumes r: "tax_rate_of (lower (effect rule)) = r" and t: "wealth_threshold_of (lower (effect rule)) = t"
    and r0: "0 \<le> r" and t0: "0 \<le> t"
  shows "apply_taxation rule agents =
           map (\<lambda>a. a\<lparr>wealth := wealth a - (if wealth a > t then wealth a * r else 0)
                        + sum_list (map (\<lambda>b. if wealth b > t then wealth b * r else 0) agents)
                          / real (length agents)\<rparr>) agents"
proof -
  define total where
    "total = sum_list (map (\<lambda>a. if wealth a > t then wealth a * r else 0) agents)"
  define taxed where
    "taxed = map (\<lambda>a. if wealth a > t then a\<lparr>wealth := wealth a - wealth a * r\<rparr> else a) agents"
  have loop: "foldl (tax_step r t) ([], 0) agents = (taxed, total)"
    by (simp add: tax_loop taxed_def total_def)
  have nonneg: "0 \<le> total"
    unfolding total_def using r0 t0 by (rule tax_total_nonneg)
  show ?thesis
  proof (cases "total > 0")
    case True
    then have "apply_taxation rule agents =
            map (\<lambda>a. a\<lparr>wealth := wealth a + total / real (length agents)\<rparr>) taxed"
      using loop by (simp add: apply_taxation_def Let_def r t)
    then show ?thesis
      by (simp add: taxed_def total_def)
  next
    case False
    with nonneg have z: "total = 0" by simp
    then have "apply_taxation rule agents = taxed"
      using loop by (simp add: apply_taxation_def Let_def r t)
    then show ?thesis
      using z by (simp add: taxed_def flip: total_def)
  qed
qed

text \<open>
  Claim C2. For every rule and population, with the rate and the threshold read from the
  lower-cased effect text: every agent with wealth strictly above the threshold pays
  rate times wealth into a pool, no other agent pays, and every agent, payers included,
  receives the pool divided by the number of agents. The rate is 10% when the text has no
  digit directly followed by a percent sign, and the threshold is 0 when the text has no
  \<^verbatim>\<open>wealth > N\<close>. At rate 10% and threshold 0, agents with wealths 1000, 0, 0, 0 end with
  925, 25, 25, 25.
\<close>

theorem taxation_default_rate_and_threshold:
  "apply_taxation rule agents =
     map (\<lambda>a. a\<lparr>wealth := wealth a
                  - (if wealth a > wealth_threshold_of (lower (effect rule))
                     then wealth a * tax_rate_of (lower (effect rule)) else 0)
                  + sum_list (map (\<lambda>b. if wealth b > wealth_threshold_of (lower (effect rule))
                                        then wealth b * tax_rate_of (lower (effect rule)) else 0)
                                agents)
                    / real (length agents)\<rparr>) agents
   \<and> (\<not> (\<exists>pre d rest. lower (effect rule) = pre @ d # CHR ''%'' # rest \<and> is_digit d)
        \<longrightarrow> tax_rate_of (lower (effect rule)) = 1 / 10)
   \<and> (\<not> (\<exists>pre ws1 ws2 d rest.
            lower (effect rule) = pre @ ''wealth'' @ ws1 @ ''>'' @ ws2 @ d # rest
            \<and> list_all is_space ws1 \<and> list_all is_space ws2 \<and> is_digit d)
        \<longrightarrow> wealth_threshold_of (lower (effect rule)) = 0)
   \<and> (tax_rate_of (lower (effect rule)) = 1 / 10
        \<and> wealth_threshold_of (lower (effect rule)) = 0 \<longrightarrow>
        apply_taxation rule agents =
           map (\<lambda>a. a\<lparr>wealth := wealth a - (if wealth a > 0 then wealth a * (1 / 10) else 0)
                        + sum_list (map (\<lambda>b. if wealth b > 0 then wealth b * (1 / 10) else 0) agents)
                          / real (length agents)\<rparr>) agents
        \<and> (map wealth agents = [1000, 0, 0, 0]
             \<longrightarrow> map wealth (apply_taxation rule agents) = [925, 25, 25, 25]))"
  (is "?G \<and> (?NR \<longrightarrow> ?R) \<and> (?NT \<longrightarrow> ?T) \<and> (?R \<and> ?T \<longrightarrow> ?D \<and> (?W \<longrightarrow> ?I))")
proof -
  have general: ?G
    by (rule apply_taxation_closed_form [OF refl refl])
       (rule tax_rate_of_nonneg wealth_threshold_of_nonneg)+
  have rate: ?R if ?NR
    using that by (rule no_rate_default)
  have threshold: ?T if ?NT
    using that by (rule no_threshold_default)
  have default: ?D if r: ?R and t: ?T
    by (rule apply_taxation_closed_form [OF r t]) simp_all
  have at_sample: ?I if r: ?R and t: ?T and w: ?W
  proof -
    from w obtain a b c d where ag: "agents = [a, b, c, d]"
      and ws: "wealth a = 1000" "wealth b = 0" "wealth c = 0" "wealth d = 0"
      by (auto simp: map_eq_Cons_conv)
    show ?thesis
      by (subst default [OF r t]) (simp add: ag ws)
  qed
  show ?thesis
  proof (intro conjI impI)
    show ?G by (rule general)
  next
    assume ?NR
    then show ?R by (rule rate)
  next
    assume ?NT
    then show ?T by (rule threshold)
  next
    assume "?R \<and> ?T"
    then show ?D using default by simp
  next
    assume "?R \<and> ?T" and ?W
    then show ?I using at_sample by simp
  qed
qed

theorem taxation_default_rate_and_threshold_witness:
  "\<not> (\<exists>pre d rest. lower (effect (sample_rule ''Tax the Rich'' TAXATION True)) = pre @ d # CHR ''%'' # rest \<and> is_digit d)
   \<and> \<not> (\<exists>pre ws1 ws2 d rest.
            lower (effect (sample_rule ''Tax the Rich'' TAXATION True)) = pre @ ''wealth'' @ ws1 @ ''>'' @ ws2 @ d # rest
            \<and> list_all is_space ws1 \<and> list_all is_space ws2 \<and> is_digit d)
   \<and> tax_rate_of (lower (effect (sample_rule ''Tax the Rich'' TAXATION True))) = 1 / 10
   \<and> wealth_threshold_of (lower (effect (sample_rule ''Tax the Rich'' TAXATION True))) = 0
   \<and> map wealth (apply_taxation (sample_rule ''Tax the Rich'' TAXATION True) [sample_agent 1000, sample_agent 0, sample_agent 0, sample_agent 0]) = [925, 25, 25, 25]
   \<and> tax_rate_of (lower (effect (sample_rule ''Wealth > 500 pays 50%'' TAXATION True))) = 1 / 2
   \<and> wealth_threshold_of (lower (effect (sample_rule ''Wealth > 500 pays 50%'' TAXATION True))) = 500
   \<and> map wealth (apply_taxation (sample_rule ''Wealth > 500 pays 50%'' TAXATION True)
                    [sample_agent 500, sample_agent 1000]) = [750, 750]"
proof -
  have e: "lower (effect (sample_rule ''Tax the Rich'' TAXATION True)) = ''tax the rich''"
    by code_simp
  have h1: "\<not> (\<exists>pre d rest. lower (effect (sample_rule ''Tax the Rich'' TAXATION True)) = pre @ d # CHR ''%'' # rest \<and> is_digit d)"
    unfolding e by (rule no_percent_char) simp
  have h2: "\<not> (\<exists>pre ws1 ws2 d rest.
            lower (effect (sample_rule ''Tax the Rich'' TAXATION True)) = pre @ ''wealth'' @ ws1 @ ''>'' @ ws2 @ d # rest
            \<and> list_all is_space ws1 \<and> list_all is_space ws2 \<and> is_digit d)"
    unfolding e by (rule no_gt_char) simp
  note thm1 = taxation_default_rate_and_threshold
    [of "sample_rule ''Tax the Rich'' TAXATION True"
        "[sample_agent 1000, sample_agent 0, sample_agent 0, sample_agent 0]"]
  from thm1 h1 have r1: "tax_rate_of (lower (effect (sample_rule ''Tax the Rich'' TAXATION True))) = 1 / 10"
    by blast
  from thm1 h2 have t1: "wealth_threshold_of (lower (effect (sample_rule ''Tax the Rich'' TAXATION True))) = 0"
    by blast
  have "map wealth [sample_agent 1000, sample_agent 0, sample_agent 0, sample_agent 0] = [1000, 0, 0, 0]"
    by (simp add: sample_agent_def)
  with thm1 r1 t1
  have c1: "map wealth (apply_taxation (sample_rule ''Tax the Rich'' TAXATION True) [sample_agent 1000, sample_agent 0, sample_agent 0, sample_agent 0]) = [925, 25, 25, 25]"
    by blast
  have e2: "lower (effect (sample_rule ''Wealth > 500 pays 50%'' TAXATION True)) = ''wealth > 500 pays 50%''"
    by code_simp
  have r2: "tax_rate_of (lower (effect (sample_rule ''Wealth > 500 pays 50%'' TAXATION True))) = 1 / 2"
    unfolding e2
    by (simp add: tax_rate_of_def match_rate_def is_digit_def int_of_digits_def digit_value_def)
  have t2: "wealth_threshold_of (lower (effect (sample_rule ''Wealth > 500 pays 50%'' TAXATION True))) = 500"
    unfolding e2
    by (simp add: wealth_threshold_of_def match_threshold_def is_digit_def is_space_def
        int_of_digits_def digit_value_def)
  note thm2 = taxation_default_rate_and_threshold
    [of "sample_rule ''Wealth > 500 pays 50%'' TAXATION True"
        "[sample_agent 500, sample_agent 1000]"]
  from thm2 have "apply_taxation (sample_rule ''Wealth > 500 pays 50%'' TAXATION True)
                    [sample_agent 500, sample_agent 1000] =
     map (\<lambda>a. a\<lparr>wealth := wealth a - (if wealth a > 500 then wealth a * (1 / 2) else 0)
                  + sum_list (map (\<lambda>b. if wealth b > 500 then wealth b * (1 / 2) else 0)
                                [sample_agent 500, sample_agent 1000])
                    / real (length [sample_agent 500, sample_agent 1000])\<rparr>)
       [sample_agent 500, sample_agent 1000]"
    unfolding r2 t2 by blast
  then have c2: "map wealth (apply_taxation (sample_rule ''Wealth > 500 pays 50%'' TAXATION True)
                    [sample_agent 500, sample_agent 1000]) = [750, 750]"
    by (simp add: sample_agent_def)
  from h1 h2 r1 t1 c1 r2 t2 c2 show ?thesis by (intro conjI)
qed

section \<open>Properties of the mortality sweep\<close>

lemma death_loop:
  "foldl (death_step g gen) (sv, dc, lg) agents =
     (sv @ filter is_alive agents,
      dc @ filter (\<lambda>a. \<not> is_alive a) agents,
      lg @ map (\<lambda>a. snd (log_extinction g [] a gen ''bankruptcy''))
             (filter (\<lambda>a. \<not> is_alive a) agents))"
proof (induction agents arbitrary: sv dc lg)
  case Nil
  show ?case by simp
next
  case (Cons a agents)
  show ?case
  proof (cases "is_alive a")
    case True
    then have "death_step g gen (sv, dc, lg) a = (sv @ [a], dc, lg)"
      by (simp add: death_step_def)
    then show ?thesis using True by (simp add: Cons.IH)
  next
    case False
    then have "death_step g gen (sv, dc, lg) a =
                 (sv, dc @ [a], lg @ [snd (log_extinction g [] a gen ''bankruptcy'')])"
      by (simp add: death_step_def log_extinction_def Let_def)
    then show ?thesis using False by (simp add: Cons.IH)
  qed
qed

text \<open>
  The bodies of the sweep, with the names of the module taken as bound. For every
  population and generation, \<open>process_deaths\<close> splits the input by the test \<open>wealth > 0\<close>:
  the survivors are the agents that pass it and the deceased the agents that fail it,
  each in the order of the input; together they are the input (as multisets), no agent
  is in both, and the ledger grows by one record with cause \<^verbatim>\<open>bankruptcy\<close> per deceased
  agent, in the same order.
\<close>

lemma process_deaths_partition:
  "process_deaths get_best_task_type ledger agents gen =
     (filter (\<lambda>a. wealth a > 0) agents,
      filter (\<lambda>a. \<not> wealth a > 0) agents,
      ledger @ map (\<lambda>a. \<lparr>agent_id = id_agent a,
                          dynasty_id_rec = or_default (dynasty_id a) ''unknown'',
                          generation_rec = gen,
                          age_at_death = age a,
                          final_wealth = wealth a,
                          cause = ''bankruptcy'',
                          specialization = or_default (get_best_task_type a) ''generalist''\<rparr>)
                 (filter (\<lambda>a. \<not> wealth a > 0) agents))
   \<and> mset (filter (\<lambda>a. wealth a > 0) agents) + mset (filter (\<lambda>a. \<not> wealth a > 0) agents)
       = mset agents
   \<and> set (filter (\<lambda>a. wealth a > 0) agents) \<inter> set (filter (\<lambda>a. \<not> wealth a > 0) agents) = {}
   \<and> length (filter (\<lambda>a. wealth a > 0) agents) + length (filter (\<lambda>a. \<not> wealth a > 0) agents)
       = length agents"
proof -
  have alive: "is_alive = (\<lambda>a. wealth a > 0)"
    by (rule ext) (simp add: is_alive_def)
  have "process_deaths get_best_task_type ledger agents gen =
     (filter (\<lambda>a. wealth a > 0) agents,
      filter (\<lambda>a. \<not> wealth a > 0) agents,
      ledger @ map (\<lambda>a. snd (log_extinction get_best_task_type [] a gen ''bankruptcy''))
                 (filter (\<lambda>a. \<not> wealth a > 0) agents))"
    unfolding process_deaths_def death_loop by (simp add: alive)
  then have first: "process_deaths get_best_task_type ledger agents gen =
     (filter (\<lambda>a. wealth a > 0) agents,
      filter (\<lambda>a. \<not> wealth a > 0) agents,
      ledger @ map (\<lambda>a. \<lparr>agent_id = id_agent a,
                          dynasty_id_rec = or_default (dynasty_id a) ''unknown'',
                          generation_rec = gen,
                          age_at_death = age a,
                          final_wealth = wealth a,
                          cause = ''bankruptcy'',
                          specialization = or_default (get_best_task_type a) ''generalist''\<rparr>)
                 (filter (\<lambda>a. \<not> wealth a > 0) agents))"
    by (simp add: log_extinction_def Let_def)
  have second: "mset (filter (\<lambda>a. wealth a > 0) agents) + mset (filter (\<lambda>a. \<not> wealth a > 0) agents)
       = mset agents"
    by (induction agents) auto
  have third: "set (filter (\<lambda>a. wealth a > 0) agents) \<inter> set (filter (\<lambda>a. \<not> wealth a > 0) agents) = {}"
    by auto
  have fourth: "length (filter (\<lambda>a. wealth a > 0) agents) + length (filter (\<lambda>a. \<not> wealth a > 0) agents)
       = length agents"
    by (rule sum_length_filter_compl)
  from first second third fourth show ?thesis by (intro conjI)
qed

text \<open>
  With the import of \<^verbatim>\<open>dataclass\<close> and \<^verbatim>\<open>field\<close> placed before the class that uses them,
  the module loads and binds \<^verbatim>\<open>process_deaths\<close>.
\<close>

lemma death_py_loads_with_import_first:
  "\<exists>names. exec_module python_builtins (last death_py # butlast death_py) = Inr names
            \<and> ''process_deaths'' \<in> set names"
  by (simp add: python_builtins_def death_py_def)

text \<open>
  Claim C3. As the file stands, the mortality sweep never runs: \<^verbatim>\<open>death.py\<close> applies
  \<^verbatim>\<open>@dataclass\<close> to its record class before the line that imports \<^verbatim>\<open>dataclass\<close>, so
  executing the module raises \<^verbatim>\<open>NameError\<close>, and a caller of \<^verbatim>\<open>process_deaths\<close> gets that
  exception for every population and generation instead of a partition and ledger
  records.
\<close>

theorem process_deaths_module_fails_to_load:
  "exec_module python_builtins death_py = Inl (NameError ''dataclass'')
   \<and> import_and_process_deaths get_best_task_type ledger agents gen
       = Inl (NameError ''dataclass'')"
  by (simp add: import_and_process_deaths_def python_builtins_def death_py_def)

section \<open>Properties of reproduction\<close>

text \<open>
  Claim C4. For a parent with wealth at least 200 whose offspring prompt the service
  delivers, \<open>reproduce\<close> takes exactly 200 from the parent (a parent at exactly 200 ends at
  0) and appends the child's id to the parent's children; the child has wealth 50, the
  parent's id as \<open>parent_id\<close>, the parent's \<open>dynasty_id\<close>, and the parent's generation
  plus one.
\<close>

theorem reproduce_success:
  assumes eligible: "wealth parent \<ge> 200"
    and answer: "llm_client parent mutation_rate = Inr content"
  shows "reproduce parent llm_client mutation_rate child_id =
           (parent\<lparr>wealth := wealth parent - 200,
                   children_ids := children_ids parent @ [child_id]\<rparr>,
            Inr \<lparr>id_agent = child_id, system_prompt = strip content,
                 generation = generation parent + 1, wealth = 50, age = 0,
                 parent_id = Some (id_agent parent), children_ids = [],
                 dynasty_id = dynasty_id parent\<rparr>)
       \<and> (wealth parent = 200 \<longrightarrow>
            wealth (fst (reproduce parent llm_client mutation_rate child_id)) = 0)"
  using assms
  by (simp add: reproduce_def can_reproduce_def REPRODUCTION_COST_def
      generate_offspring_prompt_def pay_reproduction_cost_def create_offspring_def
      CHILD_STARTING_WEALTH_def Let_def)

theorem reproduce_success_witness:
  "wealth (sample_agent 200) \<ge> 200
   \<and> (\<lambda>a r. Inr '' A careful solver. '') (sample_agent 200) (3 / 10) = (Inr '' A careful solver. '' :: oracle_error + string)
   \<and> wealth (fst (reproduce (sample_agent 200) (\<lambda>a r. Inr '' A careful solver. '') (3 / 10) ''c0ffee00'')) = 0
   \<and> map_sum id wealth (snd (reproduce (sample_agent 200) (\<lambda>a r. Inr '' A careful solver. '') (3 / 10) ''c0ffee00'')) = Inr 50"
proof -
  have h1: "wealth (sample_agent 200) \<ge> 200" by (simp add: sample_agent_def)
  have h2: "(\<lambda>a r. Inr '' A careful solver. '') (sample_agent 200) (3 / 10) = (Inr '' A careful solver. '' :: oracle_error + string)"
    by simp
  show ?thesis
    using h1 reproduce_success [OF h1 h2, where child_id = "''c0ffee00''"]
    by (simp add: sample_agent_def)
qed

text \<open>
  Claim C5. \<open>reproduce\<close> raises the ineligibility error exactly when the parent's wealth
  is below 200, and whenever it raises (ineligibility or a failure of the service) the
  parent is as it was before the call.
\<close>

theorem reproduce_failure_leaves_parent:
  "(snd (reproduce parent llm_client mutation_rate child_id) = Inl IneligibleParent
      \<longleftrightarrow> wealth parent < 200)
   \<and> (isl (snd (reproduce parent llm_client mutation_rate child_id))
        \<longrightarrow> fst (reproduce parent llm_client mutation_rate child_id) = parent)"
  by (auto simp: reproduce_def can_reproduce_def REPRODUCTION_COST_def
      generate_offspring_prompt_def pay_reproduction_cost_def create_offspring_def
      Let_def split: sum.splits)

theorem reproduce_failure_leaves_parent_witness:
  "isl (snd (reproduce (sample_agent 150) (\<lambda>a r. Inr ''x'') (3 / 10) ''c0ffee00''))
   \<and> fst (reproduce (sample_agent 150) (\<lambda>a r. Inr ''x'') (3 / 10) ''c0ffee00'') = sample_agent 150
   \<and> isl (snd (reproduce (sample_agent 250) (\<lambda>a r. Inl ''timeout'') (3 / 10) ''c0ffee00''))
   \<and> fst (reproduce (sample_agent 250) (\<lambda>a r. Inl ''timeout'') (3 / 10) ''c0ffee00'') = sample_agent 250"
proof -
  have h1: "isl (snd (reproduce (sample_agent 150) (\<lambda>a r. Inr ''x'') (3 / 10) ''c0ffee00''))"
    by (simp add: reproduce_def can_reproduce_def REPRODUCTION_COST_def sample_agent_def)
  have h2: "isl (snd (reproduce (sample_agent 250) (\<lambda>a r. Inl ''timeout'') (3 / 10) ''c0ffee00''))"
    by (simp add: reproduce_def can_reproduce_def REPRODUCTION_COST_def sample_agent_def
        generate_offspring_prompt_def)
  show ?thesis
    using h1 h2
      reproduce_failure_leaves_parent [of "sample_agent 150" "\<lambda>a r. Inr ''x''" "3 / 10" "''c0ffee00''"]
      reproduce_failure_leaves_parent [of "sample_agent 250" "\<lambda>a r. Inl ''timeout''" "3 / 10" "''c0ffee00''"]
    by simp
qed

text \<open>
  A supplied cap of at least 1 bounds the number of offspring: the eligible agents are
  sorted by descending wealth and cut to the cap, and each pass of the loop adds at most
  one child.
\<close>

lemma phase_step_offspring_le:
  "length (offspring (phase_step llm_client uuid4 mutation_rate st i)) \<le> Suc (length (offspring st))"
  by (simp add: phase_step_def Let_def split: prod.split sum.split)

lemma phase_loop_offspring_le:
  "length (offspring (foldl (phase_step llm_client uuid4 mutation_rate) st idxs))
     \<le> length (offspring st) + length idxs"
proof (induction idxs arbitrary: st)
  case Nil
  show ?case by simp
next
  case (Cons i idxs)
  have "length (offspring (foldl (phase_step llm_client uuid4 mutation_rate)
                    (phase_step llm_client uuid4 mutation_rate st i) idxs))
          \<le> length (offspring (phase_step llm_client uuid4 mutation_rate st i)) + length idxs"
    by (rule Cons.IH)
  also have "\<dots> \<le> Suc (length (offspring st)) + length idxs"
    using phase_step_offspring_le [of llm_client uuid4 mutation_rate st i] by simp
  finally show ?case by simp
qed

lemma reproduction_phase_positive_cap:
  assumes "0 < m"
  shows "length (offspring (reproduction_phase agents llm_client uuid4 (Some m) mutation_rate))
           \<le> nat m"
proof -
  let ?idxs = "py_slice_to (sort_key (\<lambda>i. - wealth (agents ! i)) (get_reproducible_agents agents)) m"
  have "length ?idxs \<le> nat m"
    using assms by (simp add: py_slice_to_def)
  moreover have "length (offspring (reproduction_phase agents llm_client uuid4 (Some m) mutation_rate))
                   \<le> 0 + length ?idxs"
    using assms phase_loop_offspring_le
      [of llm_client uuid4 mutation_rate
          "\<lparr>population = agents, offspring = [], printed = [], calls = 0\<rparr>" ?idxs]
    by (simp add: reproduction_phase_def Let_def)
  ultimately show ?thesis by simp
qed

text \<open>
  Claim C6. With the cap 0 supplied, the batch phase does not restrict the eligible
  agents at all: the test \<^verbatim>\<open>if max_offspring_per_gen:\<close> reads 0 as no cap. Two eligible
  agents under the cap 0 both reproduce, so the phase yields two offspring where the
  claim allows none.
\<close>

theorem reproduction_phase_cap_zero_unbounded:
  "map id_agent (offspring (reproduction_phase [sample_agent 200, sample_agent 300]
       (\<lambda>k a r. Inr ''A careful solver.'') (\<lambda>k. if k = 0 then ''c0000000'' else ''c0000001'')
       (Some 0) (3 / 10)))
     = [''c0000000'', ''c0000001'']"
  by (simp add: reproduction_phase_def get_reproducible_agents_def can_reproduce_def
      REPRODUCTION_COST_def sample_agent_def phase_step_def reproduce_def
      generate_offspring_prompt_def pay_reproduction_cost_def create_offspring_def Let_def
      upt_rec)

section \<open>Properties of enactment\<close>

text \<open>
  Claim C9. \<open>apply_rule\<close> on a rule that has not passed returns the rule and the
  population as they are, so \<open>generation_enacted\<close> is not set. On a passed rule whose
  lower-cased effect text contains none of the dispatch keywords it returns the
  population as it is and the rule with \<open>generation_enacted\<close> set to the given generation.
\<close>

theorem apply_rule_inert:
  "(\<not> passed rule \<longrightarrow>
      apply_rule rule agents gen = (rule, agents)
      \<and> generation_enacted (fst (apply_rule rule agents gen)) = generation_enacted rule)
   \<and> (passed rule
        \<and> \<not> contains ''tax'' (lower (effect rule))
        \<and> \<not> contains ''pay'' (lower (effect rule))
        \<and> \<not> contains ''minimum'' (lower (effect rule))
        \<and> \<not> contains ''welfare'' (lower (effect rule))
        \<and> \<not> (contains ''double'' (lower (effect rule)) \<and> contains ''vote'' (lower (effect rule)))
        \<and> \<not> contains ''reproduce'' (lower (effect rule))
        \<and> \<not> contains ''offspring'' (lower (effect rule)) \<longrightarrow>
      apply_rule rule agents gen = (rule\<lparr>generation_enacted := Some gen\<rparr>, agents))"
  by (simp add: apply_rule_def Let_def)

theorem apply_rule_inert_witness:
  "\<not> passed (sample_rule ''Tax everyone 10%'' TAXATION False)
   \<and> apply_rule (sample_rule ''Tax everyone 10%'' TAXATION False) [sample_agent 1000, sample_agent 0] 4
       = (sample_rule ''Tax everyone 10%'' TAXATION False, [sample_agent 1000, sample_agent 0])
   \<and> passed (sample_rule ''Be Kind to all'' OTHER True)
   \<and> \<not> contains ''tax'' (lower (effect (sample_rule ''Be Kind to all'' OTHER True)))
   \<and> \<not> contains ''pay'' (lower (effect (sample_rule ''Be Kind to all'' OTHER True)))
   \<and> \<not> contains ''minimum'' (lower (effect (sample_rule ''Be Kind to all'' OTHER True)))
   \<and> \<not> contains ''welfare'' (lower (effect (sample_rule ''Be Kind to all'' OTHER True)))
   \<and> \<not> (contains ''double'' (lower (effect (sample_rule ''Be Kind to all'' OTHER True)))
          \<and> contains ''vote'' (lower (effect (sample_rule ''Be Kind to all'' OTHER True))))
   \<and> \<not> contains ''reproduce'' (lower (effect (sample_rule ''Be Kind to all'' OTHER True)))
   \<and> \<not> contains ''offspring'' (lower (effect (sample_rule ''Be Kind to all'' OTHER True)))
   \<and> apply_rule (sample_rule ''Be Kind to all'' OTHER True) [sample_agent 1000, sample_agent 0] 4
       = ((sample_rule ''Be Kind to all'' OTHER True)\<lparr>generation_enacted := Some 4\<rparr>,
          [sample_agent 1000, sample_agent 0])"
proof -
  have e: "lower (effect (sample_rule ''Be Kind to all'' OTHER True)) = ''be kind to all''"
    by code_simp
  have p1: "\<not> passed (sample_rule ''Tax everyone 10%'' TAXATION False)"
    and p2: "passed (sample_rule ''Be Kind to all'' OTHER True)"
    by (simp_all add: sample_rule_def)
  have k: "\<not> contains ''tax'' ''be kind to all''" "\<not> contains ''pay'' ''be kind to all''"
    "\<not> contains ''minimum'' ''be kind to all''" "\<not> contains ''welfare'' ''be kind to all''"
    "\<not> contains ''double'' ''be kind to all''" "\<not> contains ''reproduce'' ''be kind to all''"
    "\<not> contains ''offspring'' ''be kind to all''"
    by simp_all
  show ?thesis
    using p1 p2 k
      apply_rule_inert [of "sample_rule ''Tax everyone 10%'' TAXATION False"
                           "[sample_agent 1000, sample_agent 0]" 4]
      apply_rule_inert [of "sample_rule ''Be Kind to all'' OTHER True"
                           "[sample_agent 1000, sample_agent 0]" 4]
    unfolding e by simp
qed

section \<open>Properties of voting\<close>

text \<open>
  Claim C1. On a population of total vote weight zero the tally divides by zero and
  raises \<^verbatim>\<open>ZeroDivisionError\<close> under each of the three schemes: on the empty
  population, and on agents of wealth 0 under the two weighted schemes. No rule is
  marked as failed, since no result is returned.
\<close>

theorem run_voting_zero_weight_raises:
  "run_voting [] rule llm_client EQUAL threshold = Inl ZeroDivisionError
   \<and> run_voting [] rule llm_client WEALTH_WEIGHTED threshold = Inl ZeroDivisionError
   \<and> run_voting [] rule llm_client STAKE_WEIGHTED threshold = Inl ZeroDivisionError
   \<and> run_voting [sample_agent 0] rule (\<lambda>a r. Inr v) WEALTH_WEIGHTED threshold
       = Inl ZeroDivisionError
   \<and> run_voting [sample_agent 0] rule (\<lambda>a r. Inr v) STAKE_WEIGHTED threshold
       = Inl ZeroDivisionError"
  by (simp add: run_voting_def vote_on_rule_def weighted_tally_def dict_get_def
      py_truediv_def sample_agent_def)

section \<open>Properties of the welfare transform\<close>

lemma match_minimum_Some:
  assumes "match_minimum s = Some ds"
  shows "\<exists>ws1 ws2 d rest.
           (s = ''minimum'' @ ws1 @ d # rest \<or> s = ''minimum'' @ ws1 @ ''of'' @ ws2 @ d # rest)
           \<and> list_all is_space ws1 \<and> list_all is_space ws2 \<and> is_digit d"
proof -
  define t1 where "t1 = drop 7 s"
  define r1 where "r1 = dropWhile is_space t1"
  define r2 where "r2 = (if startswith r1 ''of'' then dropWhile is_space (drop 2 r1) else r1)"
  from assms have sw: "startswith s ''minimum''" and ne: "takeWhile is_digit r2 \<noteq> []"
    by (auto simp: match_minimum_def Let_def t1_def r1_def r2_def split: if_splits)
  from sw have s: "s = ''minimum'' @ t1"
    using startswith_decomp [of s "''minimum''"] by (simp add: t1_def eval_nat_numeral)
  have t1: "t1 = takeWhile is_space t1 @ r1" by (simp add: r1_def)
  from ne obtain d rest where r2: "r2 = d # rest" and d: "is_digit d"
    using takeWhile_hd by blast
  show ?thesis
  proof (cases "startswith r1 ''of''")
    case True
    define t2 where "t2 = drop 2 r1"
    from True have r1: "r1 = ''of'' @ t2"
      using startswith_decomp [of r1 "''of''"] by (simp add: t2_def eval_nat_numeral)
    have "t2 = takeWhile is_space t2 @ r2"
      using True by (simp add: r2_def t2_def)
    with s t1 r1 r2
    have "s = ''minimum'' @ takeWhile is_space t1 @ ''of'' @ takeWhile is_space t2 @ d # rest"
      by (metis append.assoc)
    then show ?thesis
      using d list_all_takeWhile by blast
  next
    case False
    then have "r1 = d # rest" using r2 by (simp add: r2_def)
    with s t1 have "s = ''minimum'' @ takeWhile is_space t1 @ d # rest"
      by metis
    moreover have "list_all is_space []" by simp
    ultimately show ?thesis
      using d list_all_takeWhile by blast
  qed
qed

lemma no_minimum_default:
  assumes "\<not> (\<exists>pre ws1 ws2 d rest.
                 (e = pre @ ''minimum'' @ ws1 @ d # rest
                  \<or> e = pre @ ''minimum'' @ ws1 @ ''of'' @ ws2 @ d # rest)
                 \<and> list_all is_space ws1 \<and> list_all is_space ws2 \<and> is_digit d)"
  shows "min_wealth_of e = 20"
proof -
  have "re_search match_minimum e = None"
  proof (rule ccontr)
    assume "re_search match_minimum e \<noteq> None"
    then obtain ds where "re_search match_minimum e = Some ds" by auto
    then obtain pre suf where e: "e = pre @ suf" and "match_minimum suf = Some ds"
      using re_search_Some by blast
    then obtain ws1 ws2 d rest where
      "suf = ''minimum'' @ ws1 @ d # rest \<or> suf = ''minimum'' @ ws1 @ ''of'' @ ws2 @ d # rest"
      "list_all is_space ws1" "list_all is_space ws2" "is_digit d"
      using match_minimum_Some by blast
    with e have "(e = pre @ ''minimum'' @ ws1 @ d # rest
                  \<or> e = pre @ ''minimum'' @ ws1 @ ''of'' @ ws2 @ d # rest)
                 \<and> list_all is_space ws1 \<and> list_all is_space ws2 \<and> is_digit d" by auto
    with assms show False by blast
  qed
  then show ?thesis by (simp add: min_wealth_of_def)
qed

lemma min_wealth_of_nonneg: "0 \<le> min_wealth_of e"
  by (simp add: min_wealth_of_def split: option.split)

lemma welfare_needed_nonneg: "0 \<le> welfare_needed m agents"
  unfolding welfare_needed_def by (rule sum_list_nonneg) auto

lemma welfare_needed_pos_iff:
  "0 < welfare_needed m agents \<longleftrightarrow> (\<exists>a\<in>set agents. wealth a < m)"
proof (induction agents)
  case Nil
  show ?case by (simp add: welfare_needed_def)
next
  case (Cons a agents)
  have split: "welfare_needed m (a # agents) = max 0 (m - wealth a) + welfare_needed m agents"
    by (simp add: welfare_needed_def)
  have nn: "0 \<le> welfare_needed m agents" by (rule welfare_needed_nonneg)
  show ?case
  proof (cases "wealth a < m")
    case True
    then have "0 < max 0 (m - wealth a)" by simp
    with nn split have "0 < welfare_needed m (a # agents)" by linarith
    with True show ?thesis by simp
  next
    case False
    then have "max 0 (m - wealth a) = 0" by simp
    with split have "welfare_needed m (a # agents) = welfare_needed m agents" by simp
    with False Cons.IH show ?thesis by simp
  qed
qed

lemma apply_welfare_closed_form:
  assumes m: "min_wealth_of (lower (effect rule)) = m"
    and need: "0 < welfare_needed m agents"
  shows "apply_welfare rule agents =
           map (\<lambda>a. if wealth a < m then a\<lparr>wealth := m\<rparr>
                     else if wealth a > m * 2
                          then a\<lparr>wealth := wealth a
                                 - min (welfare_needed m agents
                                          / real (length (filter (\<lambda>b. wealth b > m * 2) agents)))
                                       (wealth a * (1 / 10))\<rparr>
                          else a) agents"
proof -
  define k where "k = length (filter (\<lambda>b. wealth b > m * 2) agents)"
  define c where "c = welfare_needed m agents / real k"
  have m0: "0 \<le> m" using min_wealth_of_nonneg [of "lower (effect rule)"] m by simp
  show ?thesis
  proof (cases "filter (\<lambda>b. wealth b > m * 2) agents = []")
    case True
    then have none: "\<And>a. a \<in> set agents \<Longrightarrow> \<not> wealth a > m * 2"
      by (simp add: filter_empty_conv)
    have "apply_welfare rule agents =
            map (\<lambda>a. if wealth a < m then a\<lparr>wealth := m\<rparr> else a) agents"
      using need True by (simp add: apply_welfare_def Let_def m)
    also have "\<dots> = map (\<lambda>a. if wealth a < m then a\<lparr>wealth := m\<rparr>
                     else if wealth a > m * 2
                          then a\<lparr>wealth := wealth a - min c (wealth a * (1 / 10))\<rparr>
                          else a) agents"
      by (rule map_cong) (auto dest: none)
    finally show ?thesis by (simp add: c_def k_def)
  next
    case False
    have step: "(if wealth a' < m then a'\<lparr>wealth := m\<rparr> else a') =
          (if wealth a < m then a\<lparr>wealth := m\<rparr>
           else if wealth a > m * 2 then a\<lparr>wealth := wealth a - min c (wealth a * (1 / 10))\<rparr>
           else a)"
      if a': "a' = (if wealth a > m * 2 then a\<lparr>wealth := wealth a - min c (wealth a * (1 / 10))\<rparr> else a)"
      for a a' :: CivilizationAgent
    proof (cases "wealth a > m * 2")
      case True
      with m0 have "wealth a - min c (wealth a * (1 / 10)) \<ge> m" by (simp add: min_def) 
      with True m0 show ?thesis by (simp add: a')
    next
      case False
      then show ?thesis by (simp add: a')
    qed
    have "apply_welfare rule agents =
            map (\<lambda>a. if wealth a < m then a\<lparr>wealth := m\<rparr> else a)
              (map (\<lambda>a. if wealth a > m * 2
                         then a\<lparr>wealth := wealth a - min c (wealth a * (1 / 10))\<rparr> else a) agents)"
      using need False by (simp add: apply_welfare_def Let_def m c_def k_def)
    also have "\<dots> = map (\<lambda>a. if wealth a < m then a\<lparr>wealth := m\<rparr>
                     else if wealth a > m * 2
                          then a\<lparr>wealth := wealth a - min c (wealth a * (1 / 10))\<rparr>
                          else a) agents"
      unfolding map_map by (rule map_cong) (simp_all add: step)
    finally show ?thesis by (simp add: c_def k_def)
  qed
qed

lemma map2_map_right: "map2 g xs (map f xs) = map (\<lambda>x. g x (f x)) xs"
  by (induction xs) auto

lemma sum_list_if_const:
  "sum_list (map (\<lambda>a. if P a then c else 0) xs) = real (length (filter P xs)) * (c::real)"
  by (induction xs) (auto simp: algebra_simps)

lemma sum_list_map_mono:
  "(\<And>x. x \<in> set xs \<Longrightarrow> f x \<le> (g x :: real)) \<Longrightarrow> sum_list (map f xs) \<le> sum_list (map g xs)"
  by (rule sum_list_mono)

lemma welfare_contributed_closed_form:
  assumes m: "min_wealth_of (lower (effect rule)) = m"
    and need: "0 < welfare_needed m agents"
  shows "welfare_contributed m agents (apply_welfare rule agents) =
           sum_list (map (\<lambda>a. if wealth a > m * 2
                               then min (welfare_needed m agents
                                           / real (length (filter (\<lambda>b. wealth b > m * 2) agents)))
                                        (wealth a * (1 / 10))
                               else 0) agents)"
proof -
  have m0: "0 \<le> m" using min_wealth_of_nonneg [of "lower (effect rule)"] m by simp
  show ?thesis
    unfolding welfare_contributed_def apply_welfare_closed_form [OF m need] map2_map_right
    by (rule arg_cong [where f = sum_list], rule map_cong) (use m0 in auto)
qed

text \<open>
  Claim C8, as the code has it. Let \<open>m\<close> be the floor read from the lower-cased effect text;
  it is 20 when the text has no \<^verbatim>\<open>minimum N\<close> or \<^verbatim>\<open>minimum of N\<close>. When at least one agent
  is below \<open>m\<close>, the result is exactly this: every agent below \<open>m\<close> ends at \<open>m\<close>; every agent
  above \<open>2 * m\<close> loses the smaller of an equal share of the shortfall and a tenth of its
  wealth, a positive amount of at most 10% of its wealth; every other agent is unchanged.
  What the agents above \<open>2 * m\<close> lose in total never exceeds the total shortfall, and
  equals it when there is such an agent and the tenth of none of them is below an equal
  share of the shortfall.
\<close>

theorem welfare_transform_floor:
  assumes m: "min_wealth_of (lower (effect rule)) = m"
    and below: "\<exists>a\<in>set agents. wealth a < m"
  shows "(\<not> (\<exists>pre ws1 ws2 d rest.
              (lower (effect rule) = pre @ ''minimum'' @ ws1 @ d # rest
               \<or> lower (effect rule) = pre @ ''minimum'' @ ws1 @ ''of'' @ ws2 @ d # rest)
              \<and> list_all is_space ws1 \<and> list_all is_space ws2 \<and> is_digit d)
          \<longrightarrow> m = 20)
       \<and> apply_welfare rule agents =
           map (\<lambda>a. if wealth a < m then a\<lparr>wealth := m\<rparr>
                     else if wealth a > m * 2
                          then a\<lparr>wealth := wealth a
                                 - min (welfare_needed m agents
                                          / real (length (filter (\<lambda>b. wealth b > m * 2) agents)))
                                       (wealth a * (1 / 10))\<rparr>
                          else a) agents
       \<and> length (apply_welfare rule agents) = length agents
       \<and> (\<forall>i<length agents.
             (wealth (agents ! i) < m \<longrightarrow> wealth (apply_welfare rule agents ! i) = m)
           \<and> (wealth (agents ! i) > 2 * m \<longrightarrow>
                wealth (apply_welfare rule agents ! i) < wealth (agents ! i)
                \<and> wealth (agents ! i) - wealth (apply_welfare rule agents ! i)
                    \<le> wealth (agents ! i) / 10)
           \<and> (m \<le> wealth (agents ! i) \<and> wealth (agents ! i) \<le> 2 * m \<longrightarrow>
                apply_welfare rule agents ! i = agents ! i))
       \<and> welfare_contributed m agents (apply_welfare rule agents) \<le> welfare_needed m agents
       \<and> ((\<exists>a\<in>set agents. wealth a > 2 * m)
           \<and> (\<forall>a\<in>set agents. wealth a > 2 * m \<longrightarrow>
                 welfare_needed m agents / real (length (filter (\<lambda>b. wealth b > m * 2) agents))
                   \<le> wealth a / 10)
           \<longrightarrow> welfare_contributed m agents (apply_welfare rule agents) = welfare_needed m agents)"
proof -
  define k where "k = length (filter (\<lambda>b. wealth b > m * 2) agents)"
  define need where "need = welfare_needed m agents"
  define c where "c = need / real k"
  have m0: "0 \<le> m" using min_wealth_of_nonneg [of "lower (effect rule)"] m by simp
  have need_pos: "0 < need"
    using below by (simp add: need_def welfare_needed_pos_iff)
  have form: "apply_welfare rule agents =
           map (\<lambda>a. if wealth a < m then a\<lparr>wealth := m\<rparr>
                     else if wealth a > m * 2
                          then a\<lparr>wealth := wealth a - min c (wealth a * (1 / 10))\<rparr>
                          else a) agents"
    unfolding c_def need_def k_def
    by (rule apply_welfare_closed_form [OF m need_pos [unfolded need_def]])
  have contrib: "welfare_contributed m agents (apply_welfare rule agents) =
           sum_list (map (\<lambda>a. if wealth a > m * 2 then min c (wealth a * (1 / 10)) else 0) agents)"
    unfolding c_def need_def k_def
    by (rule welfare_contributed_closed_form [OF m need_pos [unfolded need_def]])
  have c_pos: "0 < c" if "a \<in> set agents" "wealth a > m * 2" for a
  proof -
    from that have "a \<in> set (filter (\<lambda>b. wealth b > m * 2) agents)" by simp
    then have "0 < k" unfolding k_def by (metis length_pos_if_in_set)
    with need_pos show ?thesis by (simp add: c_def)
  qed
  have default: "m = 20"
    if "\<not> (\<exists>pre ws1 ws2 d rest.
              (lower (effect rule) = pre @ ''minimum'' @ ws1 @ d # rest
               \<or> lower (effect rule) = pre @ ''minimum'' @ ws1 @ ''of'' @ ws2 @ d # rest)
              \<and> list_all is_space ws1 \<and> list_all is_space ws2 \<and> is_digit d)"
    using no_minimum_default [OF that] m by simp
  have len: "length (apply_welfare rule agents) = length agents"
    by (simp add: form)
  have pointwise: "(wealth (agents ! i) < m \<longrightarrow> wealth (apply_welfare rule agents ! i) = m)
           \<and> (wealth (agents ! i) > 2 * m \<longrightarrow>
                wealth (apply_welfare rule agents ! i) < wealth (agents ! i)
                \<and> wealth (agents ! i) - wealth (apply_welfare rule agents ! i)
                    \<le> wealth (agents ! i) / 10)
           \<and> (m \<le> wealth (agents ! i) \<and> wealth (agents ! i) \<le> 2 * m \<longrightarrow>
                apply_welfare rule agents ! i = agents ! i)"
    if i: "i < length agents" for i
  proof -
    let ?a = "agents ! i"
    have mem: "?a \<in> set agents" using i by simp
    have nth: "apply_welfare rule agents ! i =
             (if wealth ?a < m then ?a\<lparr>wealth := m\<rparr>
              else if wealth ?a > m * 2
                   then ?a\<lparr>wealth := wealth ?a - min c (wealth ?a * (1 / 10))\<rparr>
                   else ?a)"
      using i by (simp add: form)
    have rich: "wealth (apply_welfare rule agents ! i) < wealth ?a
                \<and> wealth ?a - wealth (apply_welfare rule agents ! i) \<le> wealth ?a / 10"
      if r: "wealth ?a > 2 * m"
    proof -
      from r have r': "wealth ?a > m * 2" by (simp add: mult.commute)
      from c_pos [OF mem r'] have "0 < c" .
      moreover from r m0 have "0 < wealth ?a" by simp
      ultimately have "0 < min c (wealth ?a * (1 / 10))" by simp
      moreover have "min c (wealth ?a * (1 / 10)) \<le> wealth ?a / 10" by simp
      moreover from r' m0 have "wealth (apply_welfare rule agents ! i)
                                 = wealth ?a - min c (wealth ?a * (1 / 10))"
        by (simp add: nth)
      ultimately show ?thesis by linarith
    qed
    show ?thesis
      using rich by (auto simp: nth)
  qed
  have le: "welfare_contributed m agents (apply_welfare rule agents) \<le> need"
  proof -
    have "sum_list (map (\<lambda>a. if wealth a > m * 2 then min c (wealth a * (1 / 10)) else 0) agents)
            \<le> sum_list (map (\<lambda>a. if wealth a > m * 2 then c else 0) agents)"
      by (rule sum_list_mono) simp
    also have "\<dots> = real k * c"
      by (simp add: sum_list_if_const k_def)
    also have "\<dots> \<le> need"
      using need_pos by (cases "k = 0") (simp_all add: c_def)
    finally show ?thesis by (simp add: contrib)
  qed
  have eq: "welfare_contributed m agents (apply_welfare rule agents) = need"
    if ex: "\<exists>a\<in>set agents. wealth a > 2 * m"
      and all: "\<forall>a\<in>set agents. wealth a > 2 * m \<longrightarrow> c \<le> wealth a / 10"
  proof -
    from ex obtain a where "a \<in> set (filter (\<lambda>b. wealth b > m * 2) agents)"
      by (auto simp: mult.commute)
    then have k_pos: "0 < k" unfolding k_def by (metis length_pos_if_in_set)
    have "sum_list (map (\<lambda>a. if wealth a > m * 2 then min c (wealth a * (1 / 10)) else 0) agents)
            = sum_list (map (\<lambda>a. if wealth a > m * 2 then c else 0) agents)"
      by (rule arg_cong [where f = sum_list], rule map_cong)
         (use all in \<open>auto simp: mult.commute min_def\<close>)
    also have "\<dots> = real k * c"
      by (simp add: sum_list_if_const k_def)
    also have "\<dots> = need"
      using k_pos by (simp add: c_def)
    finally show ?thesis by (simp add: contrib)
  qed
  from default form len pointwise le eq show ?thesis
    unfolding need_def c_def k_def by (intro conjI impI allI) blast+
qed

theorem welfare_transform_floor_witness:
  "min_wealth_of (lower (effect (sample_rule ''Welfare for all'' WELFARE True))) = 20
   \<and> (\<exists>a\<in>set [sample_agent 5, sample_agent 30, sample_agent 1000]. wealth a < 20)
   \<and> map wealth (apply_welfare (sample_rule ''Welfare for all'' WELFARE True)
                    [sample_agent 5, sample_agent 30, sample_agent 1000]) = [20, 30, 985]
   \<and> length (apply_welfare (sample_rule ''Welfare for all'' WELFARE True)
                [sample_agent 5, sample_agent 30, sample_agent 1000]) = 3
   \<and> welfare_contributed 20 [sample_agent 5, sample_agent 30, sample_agent 1000]
        (apply_welfare (sample_rule ''Welfare for all'' WELFARE True)
           [sample_agent 5, sample_agent 30, sample_agent 1000])
       \<le> welfare_needed 20 [sample_agent 5, sample_agent 30, sample_agent 1000]"
proof -
  have h1: "min_wealth_of (lower (effect (sample_rule ''Welfare for all'' WELFARE True))) = 20"
    by code_simp
  have h2: "\<exists>a\<in>set [sample_agent 5, sample_agent 30, sample_agent 1000]. wealth a < 20"
    by (simp add: sample_agent_def)
  note inst = welfare_transform_floor [OF h1 h2]
  from inst have "apply_welfare (sample_rule ''Welfare for all'' WELFARE True)
                   [sample_agent 5, sample_agent 30, sample_agent 1000] =
           map (\<lambda>a. if wealth a < 20 then a\<lparr>wealth := 20\<rparr>
                     else if wealth a > 20 * 2
                          then a\<lparr>wealth := wealth a
                                 - min (welfare_needed 20 [sample_agent 5, sample_agent 30, sample_agent 1000]
                                          / real (length (filter (\<lambda>b. wealth b > 20 * 2)
                                                    [sample_agent 5, sample_agent 30, sample_agent 1000])))
                                       (wealth a * (1 / 10))\<rparr>
                          else a) [sample_agent 5, sample_agent 30, sample_agent 1000]"
    by (rule conjunct1 [OF conjunct2])
  then have res: "map wealth (apply_welfare (sample_rule ''Welfare for all'' WELFARE True)
                    [sample_agent 5, sample_agent 30, sample_agent 1000]) = [20, 30, 985]"
    by (simp add: sample_agent_def welfare_needed_def)
  from inst have "length (apply_welfare (sample_rule ''Welfare for all'' WELFARE True)
                [sample_agent 5, sample_agent 30, sample_agent 1000])
                  = length [sample_agent 5, sample_agent 30, sample_agent 1000]"
    by (rule conjunct1 [OF conjunct2 [OF conjunct2]])
  then have len: "length (apply_welfare (sample_rule ''Welfare for all'' WELFARE True)
                [sample_agent 5, sample_agent 30, sample_agent 1000]) = 3"
    by simp
  from inst have le: "welfare_contributed 20 [sample_agent 5, sample_agent 30, sample_agent 1000]
        (apply_welfare (sample_rule ''Welfare for all'' WELFARE True)
           [sample_agent 5, sample_agent 30, sample_agent 1000])
       \<le> welfare_needed 20 [sample_agent 5, sample_agent 30, sample_agent 1000]"
    by (rule conjunct1 [OF conjunct2 [OF conjunct2 [OF conjunct2 [OF conjunct2]]]])
  from h1 h2 res len le show ?thesis by (intro conjI)
qed

text \<open>
  Claim C8 as stated fails: with the floor 20 and wealths 0 and 50 the shortfall is 20,
  the only contributor gives a tenth of 50, and the total contribution is 5.
\<close>

theorem welfare_contribution_counterexample:
  "min_wealth_of (lower (effect (sample_rule ''Welfare for all'' WELFARE True))) = 20
   \<and> map wealth [sample_agent 0, sample_agent 50] = [0, 50]
   \<and> map wealth (apply_welfare (sample_rule ''Welfare for all'' WELFARE True)
                    [sample_agent 0, sample_agent 50]) = [20, 45]
   \<and> welfare_needed 20 [sample_agent 0, sample_agent 50] = 20
   \<and> welfare_contributed 20 [sample_agent 0, sample_agent 50]
        (apply_welfare (sample_rule ''Welfare for all'' WELFARE True)
           [sample_agent 0, sample_agent 50]) = 5
   \<and> welfare_contributed 20 [sample_agent 0, sample_agent 50]
        (apply_welfare (sample_rule ''Welfare for all'' WELFARE True)
           [sample_agent 0, sample_agent 50])
       \<noteq> welfare_needed 20 [sample_agent 0, sample_agent 50]"
proof -
  have m: "min_wealth_of (lower (effect (sample_rule ''Welfare for all'' WELFARE True))) = 20"
    by code_simp
  have res: "apply_welfare (sample_rule ''Welfare for all'' WELFARE True)
                    [sample_agent 0, sample_agent 50] = [sample_agent 20, sample_agent 45]"
    by (simp add: apply_welfare_def m welfare_needed_def sample_agent_def Let_def)
  show ?thesis
    unfolding res using m
    by (simp add: welfare_needed_def welfare_contributed_def sample_agent_def)
qed

section \<open>Properties of governance entropy\<close>

lemma Counter_loop_same:
  "foldl counter_add [(c, n)] (replicate j c) = [(c, n + j)]"
  by (induction j arbitrary: n) simp_all

lemma all_same_replicate:
  "(\<forall>x\<in>set xs. x = c) \<Longrightarrow> xs = replicate (length xs) c"
  by (induction xs) auto

lemma Counter_single:
  assumes ne: "xs \<noteq> []" and same: "\<forall>x\<in>set xs. x = c"
  shows "Counter xs = [(c, length xs)]"
proof -
  from ne obtain y ys where xs: "xs = y # ys" by (cases xs) auto
  from same xs have y: "y = c" and ys: "\<forall>x\<in>set ys. x = c" by auto
  from ys have rep: "ys = replicate (length ys) c" by (rule all_same_replicate)
  have "Counter xs = foldl counter_add [(c, 1)] ys"
    by (simp add: Counter_def xs y)
  also have "\<dots> = foldl counter_add [(c, 1)] (replicate (length ys) c)"
    using rep by simp
  also have "\<dots> = [(c, 1 + length ys)]"
    by (rule Counter_loop_same)
  finally show ?thesis by (simp add: xs)
qed

lemma counter_add_keys: "fst ` set (counter_add d k) = insert k (fst ` set d)"
  by (induction d k rule: counter_add.induct) auto

lemma counter_add_distinct:
  "distinct (map fst d) \<Longrightarrow> distinct (map fst (counter_add d k))"
proof (induction d k rule: counter_add.induct)
  case (1 k)
  show ?case by simp
next
  case (2 k' n d k)
  show ?case
  proof (cases "k' = k")
    case True
    with "2.prems" show ?thesis by simp
  next
    case False
    from "2.prems" have d: "distinct (map fst d)" and k': "k' \<notin> fst ` set d" by auto
    from False d have "distinct (map fst (counter_add d k))" by (rule "2.IH")
    moreover from k' False have "k' \<notin> fst ` set (counter_add d k)"
      by (simp add: counter_add_keys)
    ultimately show ?thesis using False by simp
  qed
qed

lemma counter_add_count:
  "(case map_of (counter_add d k) c of None \<Rightarrow> 0 | Some n \<Rightarrow> n) =
     (case map_of d c of None \<Rightarrow> 0 | Some n \<Rightarrow> n) + (if c = k then 1 else 0)"
proof (induction d k rule: counter_add.induct)
  case (1 k)
  show ?case by simp
next
  case (2 k' n d k)
  show ?case
  proof (cases "k' = k")
    case True
    then show ?thesis by simp
  next
    case False
    note IH = "2.IH" [OF False]
    show ?thesis
    proof (cases "c = k'")
      case True
      with False show ?thesis by simp
    next
      case neq: False
      show ?thesis
      proof (cases "c = k")
        case True
        with IH False show ?thesis by simp
      next
        case False
        with IH neq \<open>k' \<noteq> k\<close> show ?thesis by simp
      qed
    qed
  qed
qed

lemma Counter_loop_keys:
  "fst ` set (foldl counter_add d xs) = set xs \<union> fst ` set d"
proof (induction xs arbitrary: d)
  case Nil
  show ?case by simp
next
  case (Cons x xs)
  show ?case
    by (simp add: Cons.IH counter_add_keys)
qed

lemma Counter_loop_distinct:
  "distinct (map fst d) \<Longrightarrow> distinct (map fst (foldl counter_add d xs))"
proof (induction xs arbitrary: d)
  case Nil
  then show ?case by simp
next
  case (Cons x xs)
  from Cons.prems have "distinct (map fst (counter_add d x))"
    by (rule counter_add_distinct)
  then show ?case
    by (simp add: Cons.IH)
qed

lemma Counter_loop_count:
  "(case map_of (foldl counter_add d xs) c of None \<Rightarrow> 0 | Some n \<Rightarrow> n) =
     (case map_of d c of None \<Rightarrow> 0 | Some n \<Rightarrow> n) + count_list xs c"
proof (induction xs arbitrary: d)
  case Nil
  show ?case by simp
next
  case (Cons x xs)
  show ?case
    by (simp add: Cons.IH counter_add_count)
qed

lemma Counter_entry:
  assumes "(c, n) \<in> set (Counter xs)"
  shows "n = count_list xs c"
proof -
  have "distinct (map fst (Counter xs))"
    unfolding Counter_def by (rule Counter_loop_distinct) simp
  with assms have "map_of (Counter xs) c = Some n"
    by (simp add: map_of_is_SomeI)
  moreover have "(case map_of (Counter xs) c of None \<Rightarrow> 0 | Some n \<Rightarrow> n) = count_list xs c"
    unfolding Counter_def using Counter_loop_count [of "[]" xs c] by simp
  ultimately show ?thesis by simp
qed

lemma UNIV_RuleCategory:
  "(UNIV :: RuleCategory set) =
     {TAXATION, MERITOCRACY, WELFARE, OLIGARCHY, REPRODUCTION, COMPETITION, OTHER}"
proof -
  have "c \<in> {TAXATION, MERITOCRACY, WELFARE, OLIGARCHY, REPRODUCTION, COMPETITION, OTHER}"
    for c :: RuleCategory
    by (cases c) simp_all
  then show ?thesis by blast
qed

lemma card_RuleCategory: "card (UNIV :: RuleCategory set) = 7"
  by (simp add: UNIV_RuleCategory)

lemma Counter_even:
  assumes k: "0 < k" and even: "\<And>c :: RuleCategory. count_list xs c = k"
  shows "map snd (Counter xs) = replicate 7 k"
proof -
  have all_in: "c \<in> set xs" for c
  proof (rule ccontr)
    assume "c \<notin> set xs"
    then have "count_list xs c = 0" by simp
    with even [of c] k show False by simp
  qed
  then have "set xs = UNIV" by blast
  then have keys: "fst ` set (Counter xs) = UNIV"
    unfolding Counter_def by (simp add: Counter_loop_keys)
  have dist: "distinct (map fst (Counter xs))"
    unfolding Counter_def by (rule Counter_loop_distinct) simp
  have "length (Counter xs) = length (map fst (Counter xs))" by simp
  also have "\<dots> = card (set (map fst (Counter xs)))"
    using dist by (simp only: distinct_card)
  also have "\<dots> = 7"
    using keys by (simp add: card_RuleCategory)
  finally have len: "length (Counter xs) = 7" .
  have "snd e = k" if "e \<in> set (Counter xs)" for e
  proof -
    from that have "(fst e, snd e) \<in> set (Counter xs)" by simp
    then have "snd e = count_list xs (fst e)" by (rule Counter_entry)
    then show ?thesis by (simp add: even)
  qed
  then have "map snd (Counter xs) = map (\<lambda>e. k) (Counter xs)"
    by (intro map_cong) simp_all
  then show ?thesis by (simp add: len map_replicate_const)
qed

lemma ln7_gt_1: "1 < ln (7::real)"
proof -
  have "exp 1 \<le> (3::real)" by (rule exp_le)
  then have "exp 1 < (7::real)" by simp
  then have "ln (exp 1) < ln (7::real)"
    by (subst ln_less_cancel_iff) simp_all
  then show ?thesis by simp
qed

lemma ln_one_plus_bounds:
  assumes "0 < (x::real)"
  shows "0 < ln (1 + x)" and "ln (1 + x) \<le> x"
proof -
  from assms show "0 < ln (1 + x)" by (simp add: ln_gt_zero)
  from assms show "ln (1 + x) \<le> x" by (simp add: ln_add_one_self_le_self)
qed

lemma entropy_single_value:
  assumes ne: "filter passed rules \<noteq> []"
    and same: "\<forall>r\<in>set (filter passed rules). category r = c"
  shows "compute_governance_entropy rules = - ln (1 + 1 / 10 ^ 10) / ln 7"
proof -
  let ?cats = "map category (filter passed rules)"
  have "?cats \<noteq> []" using ne by simp
  moreover have "\<forall>x\<in>set ?cats. x = c" using same by auto
  ultimately have cnt: "Counter ?cats = [(c, length ?cats)]"
    by (rule Counter_single)
  have len: "0 < length (filter passed rules)" using ne by simp
  show ?thesis
    using ne len
    by (simp add: compute_governance_entropy_def Let_def cnt RuleCategory_members_def)
qed

lemma entropy_single_bounds:
  "- (1 / 10 ^ 10) < - ln (1 + 1 / 10 ^ 10) / ln (7::real)"
  "- ln (1 + 1 / 10 ^ 10) / ln (7::real) < 0"
proof -
  define e :: real where "e = 1 / 10 ^ 10"
  have e: "0 < e" by (simp add: e_def)
  have l: "0 < ln (1 + e)" "ln (1 + e) \<le> e"
    using ln_one_plus_bounds [OF e] by simp_all
  have l7: "1 < ln (7::real)" by (rule ln7_gt_1)
  have "ln (1 + e) / ln 7 < ln (1 + e) / 1"
    using l(1) l7 by (intro divide_strict_left_mono) simp_all
  with l(2) have "ln (1 + e) / ln 7 < e" by simp
  then show "- (1 / 10 ^ 10) < - ln (1 + 1 / 10 ^ 10) / ln (7::real)"
    by (simp add: e_def)
  have "0 < ln (1 + e) / ln 7"
    using l(1) l7 by simp
  then show "- ln (1 + 1 / 10 ^ 10) / ln (7::real) < 0"
    by (simp add: e_def)
qed

lemma sum_list_replicate_real: "sum_list (replicate n (x::real)) = real n * x"
  by (induction n) (simp_all add: algebra_simps)

lemma entropy_even_value:
  assumes k: "0 < k"
    and even: "\<And>c. count_list (map category (filter passed rules)) c = k"
  shows "compute_governance_entropy rules = - ln (1 / 7 + 1 / 10 ^ 10) / ln 7"
proof -
  let ?cats = "map category (filter passed rules)"
  have cnt: "map snd (Counter ?cats) = replicate 7 k"
    using k even by (rule Counter_even)
  have "count_list ?cats TAXATION = k" by (rule even)
  with k have ne: "filter passed rules \<noteq> []" by auto
  have total: "sum_list (replicate 7 k) = 7 * k"
    by (simp add: sum_list_replicate)
  have p: "real k / real (7 * k) = 1 / 7"
    using k by simp
  have probs: "map (\<lambda>c. real c / real (7 * k)) (replicate 7 k) = replicate 7 (1 / 7)"
    by (simp only: map_replicate p)
  have members: "real (length RuleCategory_members) = 7"
    by (simp add: RuleCategory_members_def)
  have "compute_governance_entropy rules =
          - sum_list (map (\<lambda>p. p * ln (p + 1 / 10 ^ 10)) (replicate 7 (1 / 7 :: real))) / ln 7"
    by (simp only: compute_governance_entropy_def Let_def ne if_False cnt total probs members)
  also have "\<dots> = - ln (1 / 7 + 1 / 10 ^ 10) / ln 7"
    by (simp only: map_replicate sum_list_replicate_real)
  finally show ?thesis .
qed

lemma entropy_even_bounds:
  "1 - 1 / 10 ^ 9 < - ln (1 / 7 + 1 / 10 ^ 10) / ln (7::real)"
  "- ln (1 / 7 + 1 / 10 ^ 10) / ln (7::real) < 1"
proof -
  define e :: real where "e = 7 / 10 ^ 10"
  have e: "0 < e" by (simp add: e_def)
  have l: "0 < ln (1 + e)" "ln (1 + e) \<le> e"
    using ln_one_plus_bounds [OF e] by simp_all
  have l7: "1 < ln (7::real)" by (rule ln7_gt_1)
  have "(1 / 7 + 1 / 10 ^ 10 :: real) = (1 + e) / 7"
    by (simp add: e_def)
  moreover have "ln ((1 + e) / 7) = ln (1 + e) - ln 7"
    using e by (intro ln_divide_pos) simp_all
  ultimately have "ln (1 / 7 + 1 / 10 ^ 10 :: real) = ln (1 + e) - ln 7"
    by (simp only:)
  then have val: "- ln (1 / 7 + 1 / 10 ^ 10) / ln (7::real) = 1 - ln (1 + e) / ln 7"
    using l7 by (simp add: field_simps)
  have "ln (1 + e) / ln 7 < ln (1 + e) / 1"
    using l(1) l7 by (intro divide_strict_left_mono) simp_all
  with l(2) have "ln (1 + e) / ln 7 < e" by simp
  moreover have "e < 1 / 10 ^ 9" by (simp add: e_def)
  ultimately show "1 - 1 / 10 ^ 9 < - ln (1 / 7 + 1 / 10 ^ 10) / ln (7::real)"
    unfolding val by linarith
  have "0 < ln (1 + e) / ln 7"
    using l(1) l7 by simp
  then show "- ln (1 / 7 + 1 / 10 ^ 10) / ln (7::real) < 1"
    unfolding val by linarith
qed

text \<open>
  Claim C7, as the code has it. Governance entropy is exactly 0 when no rule has passed.
  Every probability is shifted by \<open>1 / 10 ^ 10\<close> before its logarithm is taken, so when
  all passed rules share one category the value is \<open>- ln (1 + 1 / 10 ^ 10) / ln 7\<close>,
  strictly between \<open>- 1 / 10 ^ 10\<close> and 0, and when the passed rules are spread evenly
  over all 7 categories it is \<open>- ln (1 / 7 + 1 / 10 ^ 10) / ln 7\<close>, strictly between
  \<open>1 - 1 / 10 ^ 9\<close> and 1. The divisor is the logarithm of the number of categories, 7.
\<close>

theorem governance_entropy_near_extremes:
  "(filter passed rules = [] \<longrightarrow> compute_governance_entropy rules = 0)
   \<and> (filter passed rules \<noteq> [] \<and> (\<forall>r\<in>set (filter passed rules). category r = c) \<longrightarrow>
        compute_governance_entropy rules = - ln (1 + 1 / 10 ^ 10) / ln 7
        \<and> - (1 / 10 ^ 10) < compute_governance_entropy rules
        \<and> compute_governance_entropy rules < 0)
   \<and> (0 < k \<and> (\<forall>c. count_list (map category (filter passed rules)) c = k) \<longrightarrow>
        compute_governance_entropy rules = - ln (1 / 7 + 1 / 10 ^ 10) / ln 7
        \<and> 1 - 1 / 10 ^ 9 < compute_governance_entropy rules
        \<and> compute_governance_entropy rules < 1)"
proof (intro conjI impI)
  assume "filter passed rules = []"
  then show "compute_governance_entropy rules = 0"
    by (simp add: compute_governance_entropy_def)
next
  assume a: "filter passed rules \<noteq> [] \<and> (\<forall>r\<in>set (filter passed rules). category r = c)"
  then have v: "compute_governance_entropy rules = - ln (1 + 1 / 10 ^ 10) / ln 7"
    using entropy_single_value [of rules c] by blast
  show "compute_governance_entropy rules = - ln (1 + 1 / 10 ^ 10) / ln 7" by (rule v)
  show "- (1 / 10 ^ 10) < compute_governance_entropy rules"
    unfolding v by (rule entropy_single_bounds)
  show "compute_governance_entropy rules < 0"
    unfolding v by (rule entropy_single_bounds)
next
  assume a: "0 < k \<and> (\<forall>c. count_list (map category (filter passed rules)) c = k)"
  then have v: "compute_governance_entropy rules = - ln (1 / 7 + 1 / 10 ^ 10) / ln 7"
    by (intro entropy_even_value [of k]) simp_all
  show "compute_governance_entropy rules = - ln (1 / 7 + 1 / 10 ^ 10) / ln 7" by (rule v)
  show "1 - 1 / 10 ^ 9 < compute_governance_entropy rules"
    unfolding v by (rule entropy_even_bounds)
  show "compute_governance_entropy rules < 1"
    unfolding v by (rule entropy_even_bounds)
qed

theorem governance_entropy_near_extremes_witness:
  "filter passed [sample_rule ''Tax 10%'' TAXATION False] = []
   \<and> compute_governance_entropy [sample_rule ''Tax 10%'' TAXATION False] = 0
   \<and> filter passed [sample_rule ''Tax 10%'' TAXATION True, sample_rule ''Tax 20%'' TAXATION True,
                     sample_rule ''Minimum of 30'' WELFARE False] \<noteq> []
   \<and> map category (filter passed [sample_rule ''Tax 10%'' TAXATION True,
                                     sample_rule ''Tax 20%'' TAXATION True,
                                     sample_rule ''Minimum of 30'' WELFARE False])
       = [TAXATION, TAXATION]
   \<and> compute_governance_entropy [sample_rule ''Tax 10%'' TAXATION True,
                                  sample_rule ''Tax 20%'' TAXATION True,
                                  sample_rule ''Minimum of 30'' WELFARE False] < 0
   \<and> (0::nat) < 1
   \<and> (\<forall>c. count_list (map category (filter passed one_rule_per_category)) c = 1)
   \<and> compute_governance_entropy one_rule_per_category < 1"
proof -
  have h1: "filter passed [sample_rule ''Tax 10%'' TAXATION False] = []"
    by (simp add: sample_rule_def)
  have h2: "filter passed [sample_rule ''Tax 10%'' TAXATION True, sample_rule ''Tax 20%'' TAXATION True,
                     sample_rule ''Minimum of 30'' WELFARE False] \<noteq> []"
    by (simp add: sample_rule_def)
  have h3: "\<forall>r\<in>set (filter passed [sample_rule ''Tax 10%'' TAXATION True,
                                sample_rule ''Tax 20%'' TAXATION True,
                                sample_rule ''Minimum of 30'' WELFARE False]).
         category r = TAXATION"
    by (simp add: sample_rule_def)
  have h4: "(0::nat) < 1" by simp
  have h5: "\<forall>c. count_list (map category (filter passed one_rule_per_category)) c = 1"
  proof
    fix c
    show "count_list (map category (filter passed one_rule_per_category)) c = 1"
      by (cases c) (simp_all add: one_rule_per_category_def RuleCategory_members_def sample_rule_def)
  qed
  from h1 governance_entropy_near_extremes [of "[sample_rule ''Tax 10%'' TAXATION False]"]
  have c1: "compute_governance_entropy [sample_rule ''Tax 10%'' TAXATION False] = 0"
    by blast
  from h2 h3 governance_entropy_near_extremes
    [of "[sample_rule ''Tax 10%'' TAXATION True, sample_rule ''Tax 20%'' TAXATION True,
          sample_rule ''Minimum of 30'' WELFARE False]" TAXATION]
  have c2: "compute_governance_entropy [sample_rule ''Tax 10%'' TAXATION True,
                                  sample_rule ''Tax 20%'' TAXATION True,
                                  sample_rule ''Minimum of 30'' WELFARE False] < 0"
    by blast
  from h4 h5 governance_entropy_near_extremes [of one_rule_per_category _ 1]
  have c3: "compute_governance_entropy one_rule_per_category < 1"
    by blast
  have h3': "map category (filter passed [sample_rule ''Tax 10%'' TAXATION True,
                                     sample_rule ''Tax 20%'' TAXATION True,
                                     sample_rule ''Minimum of 30'' WELFARE False])
       = [TAXATION, TAXATION]"
    by (simp add: sample_rule_def)
  from h1 c1 h2 h3' c2 h4 h5 c3 show ?thesis by (intro conjI)
qed

text \<open>
  Claim C7 as stated fails: one passed rule gives a value different from 0, and one
  passed rule in each of the 7 categories gives a value different from 1.
\<close>

theorem governance_entropy_counterexample:
  "compute_governance_entropy [sample_rule ''Tax 10%'' TAXATION True] \<noteq> 0
   \<and> compute_governance_entropy one_rule_per_category \<noteq> 1"
proof -
  have "filter passed [sample_rule ''Tax 10%'' TAXATION True] \<noteq> []"
    and "\<forall>r\<in>set (filter passed [sample_rule ''Tax 10%'' TAXATION True]). category r = TAXATION"
    by (simp_all add: sample_rule_def)
  then have "compute_governance_entropy [sample_rule ''Tax 10%'' TAXATION True]
               = - ln (1 + 1 / 10 ^ 10) / ln 7"
    by (rule entropy_single_value)
  then have single: "compute_governance_entropy [sample_rule ''Tax 10%'' TAXATION True] < 0"
    using entropy_single_bounds(2) by simp
  have "count_list (map category (filter passed one_rule_per_category)) c = 1" for c
    by (cases c) (simp_all add: one_rule_per_category_def RuleCategory_members_def sample_rule_def)
  then have "compute_governance_entropy one_rule_per_category = - ln (1 / 7 + 1 / 10 ^ 10) / ln 7"
    by (intro entropy_even_value [of 1]) simp_all
  then have even: "compute_governance_entropy one_rule_per_category < 1"
    using entropy_even_bounds(2) by simp
  from single even show ?thesis by simp
qed

end
